theory Spec2Isabelle
  imports Complex_Main "HOL-Library.Sublist" "HOL-Library.Multiset"
    "HOL-Library.List_Lexorder" "HOL-Library.Char_ord"
begin

section \<open>ECMAScript strings\<close>

text \<open>
  A string is the list of its code units. The model covers the code units U+0000 to
  U+00FF (one \<^typ>\<open>char\<close> each): on this range \<open>toLowerCase\<close> maps A-Z and the
  upper-case letters U+00C0-U+00DE (U+00D7, the multiplication sign, apart) to the code
  unit 32 above, and \<open>trim\<close> strips TAB, LF, VT, FF, CR, SPACE and NBSP.
\<close>

definition isWhiteSpace :: "char \<Rightarrow> bool" where
  "isWhiteSpace c = (of_char c \<in> {9, 10, 11, 12, 13, 32, 160 :: nat})"

definition toLowerCase_char :: "char \<Rightarrow> char" where
  "toLowerCase_char c =
     (let n = (of_char c :: nat) in
      if (65 \<le> n \<and> n \<le> 90) \<or> (192 \<le> n \<and> n \<le> 222 \<and> n \<noteq> 215)
      then char_of (n + 32) else c)"

definition toLowerCase :: "string \<Rightarrow> string" where
  "toLowerCase s = map toLowerCase_char s"

definition trimStart :: "string \<Rightarrow> string" where
  "trimStart s = dropWhile isWhiteSpace s"

definition trimEnd :: "string \<Rightarrow> string" where
  "trimEnd s = rev (dropWhile isWhiteSpace (rev s))"

definition trim :: "string \<Rightarrow> string" where
  "trim s = trimEnd (trimStart s)"

fun startsWith :: "string \<Rightarrow> string \<Rightarrow> bool" where
  "startsWith s [] = True"
| "startsWith [] (p # ps) = False"
| "startsWith (c # cs) (p # ps) = (c = p \<and> startsWith cs ps)"

text \<open>\<open>s.includes(sub)\<close>: \<open>sub\<close> occurs in \<open>s\<close> at some position.\<close>

fun str_includes :: "string \<Rightarrow> string \<Rightarrow> bool" where
  "str_includes [] sub = startsWith [] sub"
| "str_includes (c # cs) sub = (startsWith (c # cs) sub \<or> str_includes cs sub)"

text \<open>\<open>array.includes(x)\<close> on an array of strings, and \<open>array.some(p)\<close>.\<close>

definition array_includes :: "string list \<Rightarrow> string \<Rightarrow> bool" where
  "array_includes xs x = (x \<in> set xs)"

definition some :: "'a list \<Rightarrow> ('a \<Rightarrow> bool) \<Rightarrow> bool" where
  "some xs p = list_ex p xs"

section \<open>Numbers\<close>

text \<open>
  A number is an IEEE 754 double: a finite value, given by the real it stands for, an
  infinity or NaN (the two zeros are one value). Arithmetic rounds its exact result to
  the nearest double, ties to the even significand: \<open>binade x\<close> is the exponent of \<open>x\<close>,
  at least that of the smallest normal double, a double of that exponent is a multiple of
  \<open>2 powi (binade x - 52)\<close>, and a result of magnitude \<open>2 ^ 1024\<close> or more is an infinity.
\<close>

datatype number = Fin real | PosInfinity | NegInfinity | NaN

definition round_half_even :: "real \<Rightarrow> int" where
  "round_half_even y =
     (let f = \<lfloor>y\<rfloor>; d = y - of_int f in
      if d < 1 / 2 then f
      else if 1 / 2 < d then f + 1
      else if even f then f else f + 1)"

definition binade :: "real \<Rightarrow> int" where
  "binade x = max \<lfloor>log 2 \<bar>x\<bar>\<rfloor> (- 1022)"

definition round64 :: "real \<Rightarrow> number" where
  "round64 x =
     (if x = 0 then Fin 0
      else
        let q = 2 powi (binade x - 52);
            r = of_int (round_half_even (x / q)) * q
        in if 2 ^ 1024 \<le> r then PosInfinity
           else if r \<le> - (2 ^ 1024) then NegInfinity
           else Fin r)"

text \<open>\<open>a + b\<close> on numbers.\<close>

fun number_add :: "number \<Rightarrow> number \<Rightarrow> number" where
  "number_add NaN b = NaN"
| "number_add a NaN = NaN"
| "number_add (Fin a) (Fin b) = round64 (a + b)"
| "number_add (Fin a) PosInfinity = PosInfinity"
| "number_add (Fin a) NegInfinity = NegInfinity"
| "number_add PosInfinity (Fin b) = PosInfinity"
| "number_add PosInfinity PosInfinity = PosInfinity"
| "number_add PosInfinity NegInfinity = NaN"
| "number_add NegInfinity (Fin b) = NegInfinity"
| "number_add NegInfinity PosInfinity = NaN"
| "number_add NegInfinity NegInfinity = NegInfinity"

text \<open>
  \<open>a / n\<close> for a positive finite divisor \<open>n\<close>, the only division of this program: it
  divides by a length that is greater than 0.
\<close>

fun number_div_pos :: "number \<Rightarrow> real \<Rightarrow> number" where
  "number_div_pos (Fin a) n = round64 (a / n)"
| "number_div_pos PosInfinity n = PosInfinity"
| "number_div_pos NegInfinity n = NegInfinity"
| "number_div_pos NaN n = NaN"

section \<open>Items and datasets (types.ts)\<close>

text \<open>
  \<open>BaseItem\<close> is the interface every item variant extends; the record is extensible, so
  a function on \<open>'a BaseItem_scheme\<close> is a function on every variant. The \<open>number\<close>
  fields of a typed item are finite doubles, given by the reals they stand for.
\<close>

record BaseItem =
  id' :: string
  slug :: string
  name :: string
  description :: string
  category :: string
  tags :: "string list"
  rating :: real
  imageUrl :: "string option"
  createdAt :: string

record 'a Dataset =
  ds_type :: string
  ds_items :: "'a BaseItem_scheme list"
  ds_categories :: "string list"
  ds_tags :: "string list"

section \<open>Category normalizer (dataset.ts)\<close>

definition normalizeCategoryForUrl :: "string \<Rightarrow> string" where
  "normalizeCategoryForUrl cat = trim (toLowerCase cat)"

text \<open>
  \<open>categories.find(...)\<close> is \<open>undefined\<close> (\<open>None\<close>) when nothing matches, and
  \<open>found || null\<close> is \<open>null\<close> for \<open>undefined\<close> and for the empty string.
\<close>

definition findOriginalCategory :: "string \<Rightarrow> string list \<Rightarrow> string option" where
  "findOriginalCategory normalizedCategory categories =
     (let normalized = trim (toLowerCase normalizedCategory);
          found = List.find (\<lambda>cat. trim (toLowerCase cat) = normalized) categories
      in case found of
           None \<Rightarrow> None
         | Some cat \<Rightarrow> if cat = [] then None else Some cat)"

section \<open>Query pipeline (search-filter-sort.ts)\<close>

definition searchItems :: "'a BaseItem_scheme list \<Rightarrow> string \<Rightarrow> 'a BaseItem_scheme list" where
  "searchItems items query =
     (if query = [] \<or> trim query = [] then items
      else
        let normalizedQuery = trim (toLowerCase query) in
        filter (\<lambda>item.
          let nameMatch = str_includes (toLowerCase (name item)) normalizedQuery;
              descriptionMatch = str_includes (toLowerCase (description item)) normalizedQuery;
              tagMatch = some (tags item) (\<lambda>tag. str_includes (toLowerCase tag) normalizedQuery)
          in nameMatch \<or> descriptionMatch \<or> tagMatch) items)"

definition filterByCategory :: "'a BaseItem_scheme list \<Rightarrow> string \<Rightarrow> 'a BaseItem_scheme list" where
  "filterByCategory items cat =
     (if cat = [] \<or> trim cat = [] then items
      else
        let normalizedCategory = trim (toLowerCase cat) in
        filter (\<lambda>item. trim (toLowerCase (category item)) = normalizedCategory) items)"

definition filterByTags :: "'a BaseItem_scheme list \<Rightarrow> string list \<Rightarrow> 'a BaseItem_scheme list" where
  "filterByTags items ts =
     (if length ts = 0 then items
      else filter (\<lambda>item. some ts (\<lambda>tag. array_includes (tags item) tag)) items)"

subsection \<open>Sorting\<close>

text \<open>
  \<open>Array.prototype.sort(comparefn)\<close> sorts the array in place and is stable. Its result
  on the contents is modelled by stable insertion: an element goes in front of the first
  later element it does not compare greater than. A comparator returns a number, here a
  real, and is read by its sign.
\<close>

fun insert_sorted :: "('a \<Rightarrow> 'a \<Rightarrow> real) \<Rightarrow> 'a \<Rightarrow> 'a list \<Rightarrow> 'a list" where
  "insert_sorted comparefn x [] = [x]"
| "insert_sorted comparefn x (y # ys) =
     (if comparefn x y \<le> 0 then x # y # ys else y # insert_sorted comparefn x ys)"

fun array_sort :: "('a \<Rightarrow> 'a \<Rightarrow> real) \<Rightarrow> 'a list \<Rightarrow> 'a list" where
  "array_sort comparefn [] = []"
| "array_sort comparefn (x # xs) = insert_sorted comparefn x (array_sort comparefn xs)"

text \<open>
  The conditions ECMAScript puts on a consistent comparator: equality under the comparator
  is reflexive, symmetric and transitive, and both strict orders are transitive.
\<close>

definition consistent_comparator :: "('a \<Rightarrow> 'a \<Rightarrow> real) \<Rightarrow> bool" where
  "consistent_comparator comparefn =
     ((\<forall>a. comparefn a a = 0) \<and>
      (\<forall>a b. comparefn a b = 0 \<longrightarrow> comparefn b a = 0) \<and>
      (\<forall>a b c. comparefn a b = 0 \<and> comparefn b c = 0 \<longrightarrow> comparefn a c = 0) \<and>
      (\<forall>a b c. comparefn a b < 0 \<and> comparefn b c < 0 \<longrightarrow> comparefn a c < 0) \<and>
      (\<forall>a b c. comparefn a b > 0 \<and> comparefn b c > 0 \<longrightarrow> comparefn a c > 0))"

text \<open>
  Arrays are objects on a heap: the heap is the list of the arrays allocated so far and a
  reference is an index into it. The spread \<open>[...items]\<close> allocates a new array with the
  same elements; \<open>sort\<close> overwrites the array it is called on and returns its reference.
\<close>

type_synonym 'a heap = "'a list list"

type_synonym ref = nat

definition spread :: "'a heap \<Rightarrow> ref \<Rightarrow> 'a heap \<times> ref" where
  "spread h r = (h @ [h ! r], length h)"

definition sort_in_place :: "('a \<Rightarrow> 'a \<Rightarrow> real) \<Rightarrow> 'a heap \<Rightarrow> ref \<Rightarrow> 'a heap \<times> ref" where
  "sort_in_place comparefn h r = (h[r := array_sort comparefn (h ! r)], r)"

text \<open>
  \<open>localeCompare\<close> is locale-dependent and built into the runtime; it is a parameter.
\<close>

definition sortItems ::
  "(string \<Rightarrow> string \<Rightarrow> real) \<Rightarrow> 'a BaseItem_scheme heap \<Rightarrow> ref \<Rightarrow> string
     \<Rightarrow> 'a BaseItem_scheme heap \<times> ref" where
  "sortItems localeCompare h items sortBy =
     (let (h1, sortedItems) = spread h items in
      if sortBy = ''name-asc'' then
        sort_in_place (\<lambda>a b. localeCompare (name a) (name b)) h1 sortedItems
      else if sortBy = ''name-desc'' then
        sort_in_place (\<lambda>a b. localeCompare (name b) (name a)) h1 sortedItems
      else if sortBy = ''rating-asc'' then
        sort_in_place (\<lambda>a b. rating a - rating b) h1 sortedItems
      else if sortBy = ''rating-desc'' then
        sort_in_place (\<lambda>a b. rating b - rating a) h1 sortedItems
      else (h1, sortedItems))"

text \<open>The comparator \<open>sortItems\<close> passes to \<open>sort\<close> in each of its four modes.\<close>

definition mode_comparator ::
  "(string \<Rightarrow> string \<Rightarrow> real) \<Rightarrow> string \<Rightarrow> 'a BaseItem_scheme \<Rightarrow> 'a BaseItem_scheme \<Rightarrow> real" where
  "mode_comparator localeCompare sortBy a b =
     (if sortBy = ''name-asc'' then localeCompare (name a) (name b)
      else if sortBy = ''name-desc'' then localeCompare (name b) (name a)
      else if sortBy = ''rating-asc'' then rating a - rating b
      else rating b - rating a)"

section \<open>Statistics aggregator (homepage-stats.ts)\<close>

record HomepageStatistics =
  totalItems :: nat
  totalCategories :: nat
  totalTags :: nat
  averageRating :: number

text \<open>
  An array holds fewer than \<open>2 ^ 32\<close> elements, so its length is a double and
  \<open>real totalItems\<close> is the divisor as the program has it.
\<close>

definition calculateHomepageStatistics :: "'a Dataset \<Rightarrow> HomepageStatistics" where
  "calculateHomepageStatistics dataset =
     (let totalItems = length (ds_items dataset);
          totalCategories = length (ds_categories dataset);
          totalTags = length (ds_tags dataset);
          averageRating =
            (if totalItems > 0
             then number_div_pos
                    (foldl (\<lambda>sum item. number_add sum (Fin (rating item))) (Fin 0)
                       (ds_items dataset))
                    (real totalItems)
             else Fin 0)
      in \<lparr>totalItems = totalItems, totalCategories = totalCategories,
          totalTags = totalTags, averageRating = averageRating\<rparr>)"

section \<open>Untyped values\<close>

text \<open>
  The validator and the loader receive values of any shape. An object is the list of
  its own properties, read at the first binding of a key.
\<close>

datatype jsval =
    JUndefined
  | JNull
  | JBool bool
  | JNum number
  | JStr string
  | JArr "jsval list"
  | JObj "(string \<times> jsval) list"

text \<open>\<open>a < b\<close> on numbers: every comparison with NaN is false.\<close>

fun number_less :: "number \<Rightarrow> number \<Rightarrow> bool" where
  "number_less NaN b = False"
| "number_less a NaN = False"
| "number_less (Fin x) (Fin y) = (x < y)"
| "number_less (Fin x) PosInfinity = True"
| "number_less (Fin x) NegInfinity = False"
| "number_less PosInfinity b = False"
| "number_less NegInfinity (Fin y) = True"
| "number_less NegInfinity PosInfinity = True"
| "number_less NegInfinity NegInfinity = False"

text \<open>Truthiness, as \<open>!v\<close> and \<open>v || w\<close> read it.\<close>

fun truthy :: "jsval \<Rightarrow> bool" where
  "truthy JUndefined = False"
| "truthy JNull = False"
| "truthy (JBool b) = b"
| "truthy (JNum n) = (n \<noteq> Fin 0 \<and> n \<noteq> NaN)"
| "truthy (JStr s) = (s \<noteq> [])"
| "truthy (JArr xs) = True"
| "truthy (JObj ps) = True"

fun typeof :: "jsval \<Rightarrow> string" where
  "typeof JUndefined = ''undefined''"
| "typeof JNull = ''object''"
| "typeof (JBool b) = ''boolean''"
| "typeof (JNum n) = ''number''"
| "typeof (JStr s) = ''string''"
| "typeof (JArr xs) = ''object''"
| "typeof (JObj ps) = ''object''"

fun isArray :: "jsval \<Rightarrow> bool" where
  "isArray (JArr xs) = True"
| "isArray v = False"

text \<open>
  \<open>field in v\<close> and \<open>v[field]\<close>, for the property names this program uses (name, category,
  tags, rating, description, type, items, categories): none of them is a property of an
  array or of \<open>Object.prototype\<close>, so only an object's own properties answer. Both are
  only evaluated on non-null values of type object.
\<close>

fun has_property :: "string \<Rightarrow> jsval \<Rightarrow> bool" where
  "has_property field (JObj ps) = (map_of ps field \<noteq> None)"
| "has_property field v = False"

fun get :: "jsval \<Rightarrow> string \<Rightarrow> jsval" where
  "get (JObj ps) field = (case map_of ps field of None \<Rightarrow> JUndefined | Some v \<Rightarrow> v)"
| "get v field = JUndefined"

section \<open>Schema validator (validation.ts)\<close>

definition requiredFields :: "(string \<times> string) list" where
  "requiredFields =
     [(''name'', ''string''), (''category'', ''string''), (''tags'', ''array''),
      (''rating'', ''number''), (''description'', ''string'')]"

text \<open>
  The loop over \<open>Object.entries(requiredFields)\<close>: \<open>False\<close> is the \<open>return false\<close> of the
  first field that fails, \<open>True\<close> is the loop running to its end. The diagnostic lines
  written on the way do not reach the result and are left out.
\<close>

fun check_fields :: "jsval \<Rightarrow> (string \<times> string) list \<Rightarrow> bool" where
  "check_fields item [] = True"
| "check_fields item ((field, expectedType) # rest) =
     (if \<not> has_property field item then False
      else
        let v = get item field in
        if expectedType = ''array'' then
          (case v of
             JArr elems \<Rightarrow>
               if field = ''tags'' \<and> \<not> list_all (\<lambda>tag. typeof tag = ''string'') elems
               then False
               else check_fields item rest
           | _ \<Rightarrow> False)
        else if typeof v \<noteq> expectedType then False
        else check_fields item rest)"

text \<open>
  \<open>item.rating < 0 || item.rating > 5\<close>; the loop has established that the rating is a
  number when this is evaluated.
\<close>

definition rating_out_of_range :: "jsval \<Rightarrow> bool" where
  "rating_out_of_range item =
     (case get item ''rating'' of
        JNum r \<Rightarrow> number_less r (Fin 0) \<or> number_less (Fin 5) r
      | _ \<Rightarrow> False)"

definition isValidItem :: "jsval \<Rightarrow> bool" where
  "isValidItem item =
     (if \<not> truthy item \<or> typeof item \<noteq> ''object'' then False
      else if \<not> check_fields item requiredFields then False
      else if rating_out_of_range item then False
      else True)"

definition isValidDataset :: "jsval \<Rightarrow> bool" where
  "isValidDataset dataset =
     (if \<not> truthy dataset \<or> typeof dataset \<noteq> ''object'' then False
      else if \<not> has_property ''items'' dataset \<or> \<not> isArray (get dataset ''items'') then False
      else if \<not> has_property ''type'' dataset \<or> typeof (get dataset ''type'') \<noteq> ''string''
        then False
      else if \<not> has_property ''categories'' dataset \<or> \<not> isArray (get dataset ''categories'')
        then False
      else if \<not> has_property ''tags'' dataset \<or> \<not> isArray (get dataset ''tags'') then False
      else
        (case get dataset ''items'' of
           JArr elems \<Rightarrow>
             let invalidItems =
                   filter (\<lambda>index. \<not> isValidItem (elems ! index)) [0 ..< length elems]
             in if length invalidItems > 0 then False else True
         | _ \<Rightarrow> False))"

section \<open>Dataset loader (dataset.ts)\<close>

text \<open>
  The console is the list of the lines written so far, each with its arguments. A thrown
  \<open>Error\<close> is \<open>Inl\<close> of its message. The imported fixture \<open>datasetJson\<close> is a parameter.
\<close>

datatype console_line = ConsoleLog "string list" | ConsoleError "string list"

function decimal :: "nat \<Rightarrow> string" where
  "decimal n =
     (if n < 10 then [char_of (48 + n)]
      else decimal (n div 10) @ [char_of (48 + n mod 10)])"
  by pat_completeness auto
termination
  by (relation "measure id") auto

fun array_length :: "jsval \<Rightarrow> nat" where
  "array_length (JArr xs) = length xs"
| "array_length v = 0"

text \<open>The body of the \<open>try\<close> block.\<close>

definition loadDataset_try ::
  "jsval \<Rightarrow> console_line list \<Rightarrow> console_line list \<times> (string + jsval)" where
  \<open>loadDataset_try datasetJson console =
     (if \<not> truthy datasetJson then
        let errorMsg = ''Dataset file is missing or empty. Please ensure data/dataset.json exists and contains valid data.''
        in (console @ [ConsoleError [''Dataset loading error:'', errorMsg]], Inl errorMsg)
      else if typeof datasetJson \<noteq> ''object'' then
        let errorMsg = ''Dataset must be a valid JSON object''
        in (console @ [ConsoleError [''Dataset validation error:'', errorMsg]], Inl errorMsg)
      else
        let dataset = datasetJson in
        if \<not> truthy (get dataset ''type'') then
          let errorMsg = ''Dataset must have a "type" field''
          in (console @ [ConsoleError [''Dataset validation error:'', errorMsg]], Inl errorMsg)
        else if \<not> isArray (get dataset ''items'') then
          let errorMsg = ''Dataset must have an "items" array''
          in (console @ [ConsoleError [''Dataset validation error:'', errorMsg]], Inl errorMsg)
        else if \<not> isArray (get dataset ''categories'') then
          let errorMsg = ''Dataset must have a "categories" array''
          in (console @ [ConsoleError [''Dataset validation error:'', errorMsg]], Inl errorMsg)
        else if \<not> isArray (get dataset ''tags'') then
          let errorMsg = ''Dataset must have a "tags" array''
          in (console @ [ConsoleError [''Dataset validation error:'', errorMsg]], Inl errorMsg)
        else
          (console @ [ConsoleLog [''Dataset loaded successfully: ''
              @ decimal (array_length (get dataset ''items'')) @ '' items, ''
              @ decimal (array_length (get dataset ''categories'')) @ '' categories'']],
           Inr dataset))\<close>

text \<open>
  The \<open>catch\<close> block: everything the body throws is an \<open>Error\<close>, which is logged and
  thrown again with a prefixed message.
\<close>

definition loadDataset ::
  "jsval \<Rightarrow> console_line list \<Rightarrow> console_line list \<times> (string + jsval)" where
  "loadDataset datasetJson console =
     (case loadDataset_try datasetJson console of
        (console1, Inl message) \<Rightarrow>
          (console1 @ [ConsoleError [''Failed to load dataset:'', message]],
           Inl (''Dataset loading failed: '' @ message))
      | (console1, Inr dataset) \<Rightarrow> (console1, Inr dataset))"

text \<open>
  The state of the loader module: its variable \<open>cachedDataset\<close>, initially \<open>null\<close>, and
  the console. A throwing \<open>loadDataset\<close> leaves \<open>cachedDataset\<close> as it was.
\<close>

record module_state =
  cachedDataset :: jsval
  console :: "console_line list"

definition initial_state :: module_state where
  "initial_state = \<lparr>cachedDataset = JNull, console = []\<rparr>"

definition getDataset :: "jsval \<Rightarrow> module_state \<Rightarrow> module_state \<times> (string + jsval)" where
  "getDataset datasetJson st =
     (if \<not> truthy (cachedDataset st) then
        (case loadDataset datasetJson (console st) of
           (console1, Inl message) \<Rightarrow> (st\<lparr>console := console1\<rparr>, Inl message)
         | (console1, Inr dataset) \<Rightarrow>
             (st\<lparr>cachedDataset := dataset, console := console1\<rparr>, Inr dataset))
      else (st, Inr (cachedDataset st)))"

text \<open>A sequence of \<open>n\<close> calls of \<open>getDataset\<close>, with the results in call order.\<close>

fun getDataset_calls ::
  "nat \<Rightarrow> jsval \<Rightarrow> module_state \<Rightarrow> module_state \<times> (string + jsval) list" where
  "getDataset_calls 0 datasetJson st = (st, [])"
| "getDataset_calls (Suc n) datasetJson st =
     (case getDataset datasetJson st of
        (st1, r) \<Rightarrow>
          (case getDataset_calls n datasetJson st1 of (st2, rs) \<Rightarrow> (st2, r # rs)))"

section \<open>Example data\<close>

text \<open>The two items and the dataset of the scenario in the specification.\<close>

definition item_A :: BaseItem where
  "item_A = \<lparr>id' = ''1'', slug = ''a'', name = ''A'', description = ''d'', category = ''X'',
     tags = [''ai''], rating = 4.5, imageUrl = None, createdAt = ''2024-01-01''\<rparr>"

definition item_B :: BaseItem where
  "item_B = \<lparr>id' = ''2'', slug = ''b'', name = ''B'', description = ''d2'', category = ''Y'',
     tags = [''ml''], rating = 2, imageUrl = None, createdAt = ''2024-01-02''\<rparr>"

definition example_dataset :: "unit Dataset" where
  "example_dataset = \<lparr>ds_type = ''startups'', ds_items = [item_A, item_B],
     ds_categories = [''X'', ''Y''], ds_tags = [''ai'', ''ml'']\<rparr>"

text \<open>A dataset of three items rated 1, 1 and 2.\<close>

definition dataset_1_1_2 :: "unit Dataset" where
  "dataset_1_1_2 = \<lparr>ds_type = ''startups'',
     ds_items = [item_A\<lparr>rating := 1\<rparr>, item_B\<lparr>rating := 1\<rparr>, item_B\<lparr>rating := 2\<rparr>],
     ds_categories = [''X'', ''Y''], ds_tags = [''ai'', ''ml'']\<rparr>"

definition json_item :: "number \<Rightarrow> jsval" where
  "json_item r = JObj [(''id'', JStr ''1''), (''name'', JStr ''A''), (''description'', JStr ''d''),
     (''category'', JStr ''X''), (''tags'', JArr [JStr ''ai'']), (''rating'', JNum r)]"

definition json_dataset :: "jsval \<Rightarrow> jsval list \<Rightarrow> jsval" where
  "json_dataset ty elems = JObj [(''type'', ty), (''items'', JArr elems),
     (''categories'', JArr [JStr ''X'', JStr ''Y'']), (''tags'', JArr [JStr ''ai'', JStr ''ml''])]"

text \<open>
  A consistent comparator on strings for the examples: the order of the code units.
\<close>

definition codeUnitCompare :: "string \<Rightarrow> string \<Rightarrow> real" where
  "codeUnitCompare a b = (if a < b then - 1 else if b < a then 1 else 0)"

section \<open>Properties of the string operations\<close>

lemma of_char_lt_256: "(of_char c :: nat) < 256"
  by (cases c) simp

lemma toLowerCase_char_idem: "toLowerCase_char (toLowerCase_char c) = toLowerCase_char c"
  using of_char_lt_256[of c] by (simp add: toLowerCase_char_def Let_def)

lemma isWhiteSpace_toLowerCase_char: "isWhiteSpace (toLowerCase_char c) = isWhiteSpace c"
  using of_char_lt_256[of c] by (auto simp add: isWhiteSpace_def toLowerCase_char_def Let_def)

lemma dropWhile_all: "(\<forall>y\<in>set xs. P y) \<Longrightarrow> dropWhile P xs = []"
  by (induction xs) auto

lemma dropWhile_both_ends:
  "dropWhile P (rev (dropWhile P (rev t))) = rev (dropWhile P (rev (dropWhile P t)))"
proof (induction t)
  case Nil
  then show ?case by simp
next
  case (Cons x t)
  show ?case
  proof (cases "P x")
    case True
    then show ?thesis using Cons by (auto simp: dropWhile_append dropWhile_all)
  next
    case False
    then show ?thesis by (auto simp: dropWhile_append dropWhile_all)
  qed
qed

lemma trim_idem: "trim (trim s) = trim s"
  by (simp add: trim_def trimEnd_def trimStart_def dropWhile_both_ends dropWhile_idem)

lemma trim_toLowerCase: "trim (toLowerCase s) = toLowerCase (trim s)"
  by (simp add: trim_def trimEnd_def trimStart_def toLowerCase_def dropWhile_map rev_map
      comp_def isWhiteSpace_toLowerCase_char)

lemma toLowerCase_idem: "toLowerCase (toLowerCase s) = toLowerCase s"
  by (simp add: toLowerCase_def toLowerCase_char_idem)

lemma normalize_idem: "trim (toLowerCase (trim (toLowerCase s))) = trim (toLowerCase s)"
  by (simp add: trim_toLowerCase toLowerCase_idem trim_idem)

lemma trim_blank_toLowerCase: "trim (toLowerCase s) = [] \<longleftrightarrow> trim s = []"
  unfolding trim_toLowerCase by (simp add: toLowerCase_def)

lemma trim_not_blank: "trim s \<noteq> [] \<Longrightarrow> s \<noteq> []"
  by (auto simp: trim_def trimEnd_def trimStart_def)

lemma startsWith_prefix: "startsWith s p = prefix p s"
  by (induction s p rule: startsWith.induct) auto

lemma str_includes_sublist: "str_includes s sub = sublist sub s"
  by (induction s) (auto simp: startsWith_prefix sublist_Cons_right)

lemma some_iff: "some xs p = (\<exists>x\<in>set xs. p x)"
  by (simp add: some_def list_ex_iff)

section \<open>Search\<close>

text \<open>
  Claim C1. Whatever the items and the query, \<open>searchItems\<close> returns the items, in input
  order, for which the lower-cased, trimmed query is a substring of the lower-cased name,
  of the lower-cased description or of some lower-cased tag: every returned item has the
  property, the result is the filter of the input by it (a subsequence of the input), and
  for an empty or whitespace-only query the result is the input.
\<close>

theorem searchItems_sound_complete:
  fixes items :: "'a BaseItem_scheme list"
  shows "searchItems items query =
       filter (\<lambda>item. sublist (trim (toLowerCase query)) (toLowerCase (name item))
                    \<or> sublist (trim (toLowerCase query)) (toLowerCase (description item))
                    \<or> (\<exists>tag\<in>set (tags item).
                          sublist (trim (toLowerCase query)) (toLowerCase tag))) items
     \<and> (\<forall>item\<in>set (searchItems items query).
            sublist (trim (toLowerCase query)) (toLowerCase (name item))
          \<or> sublist (trim (toLowerCase query)) (toLowerCase (description item))
          \<or> (\<exists>tag\<in>set (tags item). sublist (trim (toLowerCase query)) (toLowerCase tag)))
     \<and> subseq (searchItems items query) items
     \<and> (trim query = [] \<longrightarrow> searchItems items query = items)"
proof -
  let ?p = "\<lambda>item::'a BaseItem_scheme.
               sublist (trim (toLowerCase query)) (toLowerCase (name item))
             \<or> sublist (trim (toLowerCase query)) (toLowerCase (description item))
             \<or> (\<exists>tag\<in>set (tags item). sublist (trim (toLowerCase query)) (toLowerCase tag))"
  have blank: "searchItems items query = items" if "trim query = []"
    using that by (simp add: searchItems_def)
  have eq: "searchItems items query = filter ?p items"
  proof (cases "trim query = []")
    case True
    then have "trim (toLowerCase query) = []" by (simp add: trim_blank_toLowerCase)
    then show ?thesis using blank[OF True] by simp
  next
    case False
    then have "query \<noteq> []" by (rule trim_not_blank)
    then show ?thesis using False
      by (simp add: searchItems_def Let_def str_includes_sublist some_iff)
  qed
  have "\<forall>item\<in>set (searchItems items query). ?p item"
    unfolding eq by simp
  moreover have "subseq (searchItems items query) items"
    unfolding eq by simp
  ultimately show ?thesis using eq blank by blast
qed

theorem searchItems_sound_complete_witness:
  "trim ''  '' = [] \<and> searchItems [item_A, item_B] ''  '' = [item_A, item_B]
   \<and> item_A \<in> set (searchItems [item_A, item_B] '' AI '')
   \<and> (sublist (trim (toLowerCase '' AI '')) (toLowerCase (name item_A))
      \<or> sublist (trim (toLowerCase '' AI '')) (toLowerCase (description item_A))
      \<or> (\<exists>tag\<in>set (tags item_A). sublist (trim (toLowerCase '' AI '')) (toLowerCase tag)))"
proof -
  have t: "trim ''  '' = []" by code_simp
  have m: "item_A \<in> set (searchItems [item_A, item_B] '' AI '')"
    by (simp add: item_A_def item_B_def searchItems_def) code_simp
  from searchItems_sound_complete[of "[item_A, item_B]" "''  ''"] t
  have "searchItems [item_A, item_B] ''  '' = [item_A, item_B]" by blast
  moreover from searchItems_sound_complete[of "[item_A, item_B]" "'' AI ''"] m
  have "sublist (trim (toLowerCase '' AI '')) (toLowerCase (name item_A))
      \<or> sublist (trim (toLowerCase '' AI '')) (toLowerCase (description item_A))
      \<or> (\<exists>tag\<in>set (tags item_A). sublist (trim (toLowerCase '' AI '')) (toLowerCase tag))"
    by blast
  ultimately show ?thesis using t m by blast
qed

section \<open>Category round trip\<close>

lemma find_first_match:
  "c \<in> set xs \<Longrightarrow> P c \<Longrightarrow> \<forall>d\<in>set (takeWhile (\<lambda>d. d \<noteq> c) xs). \<not> P d \<Longrightarrow>
     List.find P xs = Some c"
  by (induction xs) auto

lemma distinct_map_no_earlier:
  "distinct (map f xs) \<Longrightarrow> c \<in> set xs \<Longrightarrow> \<forall>d\<in>set (takeWhile (\<lambda>d. d \<noteq> c) xs). f d \<noteq> f c"
  by (induction xs) (auto simp: image_iff)

text \<open>
  Claim C3, as stated, at the category list \<open>["Fintech", "fintech"]\<close>: the category
  \<open>"fintech"\<close> is in the list, and its round trip returns \<open>"Fintech"\<close>, the first entry
  with the same lower-cased, trimmed form.
\<close>

theorem round_trip_counterexample:
  "''fintech'' \<in> set [''Fintech'', ''fintech''] \<and>
   findOriginalCategory (normalizeCategoryForUrl ''fintech'') [''Fintech'', ''fintech'']
     \<noteq> Some ''fintech''"
  by code_simp

text \<open>
  Claim C3, amended. \<open>findOriginalCategory\<close> looks for the first category whose
  lower-cased, trimmed form equals the lower-cased, trimmed argument: it returns
  \<open>null\<close> when there is none and that category when it is not the empty string. So the
  round trip \<open>findOriginalCategory(normalizeCategoryForUrl(c), categories) = c\<close> holds for
  every non-empty category \<open>c\<close> of the list that no earlier entry of the list shares its
  normalised form with, hence for every non-empty category of a list whose normalised
  forms are pairwise distinct.
\<close>

theorem round_trip_first_of_its_form:
  "(List.find (\<lambda>cat. trim (toLowerCase cat) = trim (toLowerCase n)) categories = None
      \<longrightarrow> findOriginalCategory n categories = None)
 \<and> (\<forall>cat. List.find (\<lambda>cat. trim (toLowerCase cat) = trim (toLowerCase n)) categories = Some cat
        \<and> cat \<noteq> [] \<longrightarrow> findOriginalCategory n categories = Some cat)
 \<and> (c \<in> set categories \<and> c \<noteq> []
      \<and> (\<forall>d\<in>set (takeWhile (\<lambda>d. d \<noteq> c) categories).
            normalizeCategoryForUrl d \<noteq> normalizeCategoryForUrl c)
      \<longrightarrow> findOriginalCategory (normalizeCategoryForUrl c) categories = Some c)
 \<and> (c \<in> set categories \<and> c \<noteq> [] \<and> distinct (map normalizeCategoryForUrl categories)
      \<longrightarrow> findOriginalCategory (normalizeCategoryForUrl c) categories = Some c)"
proof -
  have first: "findOriginalCategory (normalizeCategoryForUrl c) categories = Some c"
    if "c \<in> set categories" "c \<noteq> []"
      "\<forall>d\<in>set (takeWhile (\<lambda>d. d \<noteq> c) categories).
          normalizeCategoryForUrl d \<noteq> normalizeCategoryForUrl c"
  proof -
    have "List.find (\<lambda>d. normalizeCategoryForUrl d = normalizeCategoryForUrl c) categories
            = Some c"
      using that(1) _ that(3) by (rule find_first_match) simp
    then show ?thesis using that(2)
      by (simp add: findOriginalCategory_def normalizeCategoryForUrl_def normalize_idem)
  qed
  have dist: "findOriginalCategory (normalizeCategoryForUrl c) categories = Some c"
    if "c \<in> set categories" "c \<noteq> []" "distinct (map normalizeCategoryForUrl categories)"
    using first[OF that(1,2)] distinct_map_no_earlier[OF that(3,1)] by blast
  have "List.find (\<lambda>cat. trim (toLowerCase cat) = trim (toLowerCase n)) categories = None
      \<longrightarrow> findOriginalCategory n categories = None"
    by (simp add: findOriginalCategory_def)
  moreover have "\<forall>cat. List.find (\<lambda>cat. trim (toLowerCase cat) = trim (toLowerCase n))
        categories = Some cat \<and> cat \<noteq> [] \<longrightarrow> findOriginalCategory n categories = Some cat"
    by (simp add: findOriginalCategory_def)
  ultimately show ?thesis using first dist by blast
qed

theorem round_trip_first_of_its_form_witness:
  "''HealthTech'' \<in> set [''Fintech'', ''HealthTech''] \<and> ''HealthTech'' \<noteq> []
   \<and> distinct (map normalizeCategoryForUrl [''Fintech'', ''HealthTech''])
   \<and> findOriginalCategory (normalizeCategoryForUrl ''HealthTech'') [''Fintech'', ''HealthTech'']
       = Some ''HealthTech''"
proof -
  have m: "''HealthTech'' \<in> set [''Fintech'', ''HealthTech'']" by simp
  have n: "''HealthTech'' \<noteq> []" by simp
  have d: "distinct (map normalizeCategoryForUrl [''Fintech'', ''HealthTech''])" by code_simp
  from round_trip_first_of_its_form[of _ "[''Fintech'', ''HealthTech'']" "''HealthTech''"] m n d
  have "findOriginalCategory (normalizeCategoryForUrl ''HealthTech'')
          [''Fintech'', ''HealthTech''] = Some ''HealthTech''"
    by blast
  then show ?thesis using m n d by blast
qed

section \<open>Category and tag filters\<close>

text \<open>
  Claim C4. For an empty or whitespace-only category \<open>filterByCategory\<close> returns its
  input. Otherwise it returns, in input order, the items whose lower-cased, trimmed
  category equals the lower-cased, trimmed argument: every returned item is such an item
  and every such item of the input is returned. In particular \<open>"Fintech"\<close> and
  \<open>"FINTECH"\<close> select the same items.
\<close>

theorem filterByCategory_case_insensitive:
  fixes items :: "'a BaseItem_scheme list"
  shows "(trim cat = [] \<longrightarrow> filterByCategory items cat = items)
     \<and> (trim cat \<noteq> [] \<longrightarrow>
          filterByCategory items cat =
            filter (\<lambda>item. trim (toLowerCase (category item)) = trim (toLowerCase cat)) items
        \<and> (\<forall>item\<in>set (filterByCategory items cat).
              trim (toLowerCase (category item)) = trim (toLowerCase cat))
        \<and> (\<forall>item\<in>set items. trim (toLowerCase (category item)) = trim (toLowerCase cat)
              \<longrightarrow> item \<in> set (filterByCategory items cat)))
     \<and> filterByCategory items ''Fintech'' = filterByCategory items ''FINTECH''"
proof -
  have n1: "trim (toLowerCase ''Fintech'') = ''fintech''" by code_simp
  have n2: "trim (toLowerCase ''FINTECH'') = ''fintech''" by code_simp
  have t1: "trim ''Fintech'' \<noteq> []" by code_simp
  have t2: "trim ''FINTECH'' \<noteq> []" by code_simp
  have "filterByCategory items ''Fintech'' = filterByCategory items ''FINTECH''"
    unfolding filterByCategory_def Let_def n1 n2 using t1 t2 by simp
  moreover have "trim cat \<noteq> [] \<Longrightarrow> cat \<noteq> []"
    by (rule trim_not_blank)
  ultimately show ?thesis
    by (auto simp: filterByCategory_def Let_def)
qed

theorem filterByCategory_case_insensitive_witness:
  "trim '' x '' \<noteq> [] \<and> item_A \<in> set [item_A, item_B]
   \<and> trim (toLowerCase (category item_A)) = trim (toLowerCase '' x '')
   \<and> item_A \<in> set (filterByCategory [item_A, item_B] '' x '')
   \<and> trim ''  '' = [] \<and> filterByCategory [item_A, item_B] ''  '' = [item_A, item_B]"
proof -
  have t: "trim '' x '' \<noteq> []" by code_simp
  have b: "trim ''  '' = []" by code_simp
  have m: "item_A \<in> set [item_A, item_B]" by simp
  have c: "trim (toLowerCase (category item_A)) = trim (toLowerCase '' x '')"
    unfolding item_A_def by simp code_simp
  from filterByCategory_case_insensitive[of "'' x ''" "[item_A, item_B]"] t m c
  have "item_A \<in> set (filterByCategory [item_A, item_B] '' x '')" by blast
  moreover from filterByCategory_case_insensitive[of "''  ''" "[item_A, item_B]"] b
  have "filterByCategory [item_A, item_B] ''  '' = [item_A, item_B]" by blast
  ultimately show ?thesis using t b m c by blast
qed

text \<open>
  Claim C5. For an empty tag list \<open>filterByTags\<close> returns its input. Otherwise it keeps,
  in input order, exactly the items one of whose tags is equal, as a string, to one of
  the requested tags. The match is exact and case-sensitive where \<open>searchItems\<close>
  matches a tag by substring and without case: the item tagged \<open>"ai"\<close> is found by the
  searches \<open>"a"\<close> and \<open>"AI"\<close> and dropped by the tag filters \<open>["a"]\<close> and \<open>["AI"]\<close>,
  and the item named B, described as d2 and tagged \<open>"ml"\<close> is found by the search \<open>"m"\<close>,
  which only its tag contains, and dropped by the tag filter \<open>["m"]\<close>.
\<close>

theorem filterByTags_exact_match:
  fixes items :: "'a BaseItem_scheme list"
  shows "(ts = [] \<longrightarrow> filterByTags items ts = items)
     \<and> (ts \<noteq> [] \<longrightarrow>
          filterByTags items ts = filter (\<lambda>item. \<exists>tag\<in>set ts. tag \<in> set (tags item)) items)
     \<and> filterByTags [item_A] [''ai''] = [item_A]
     \<and> filterByTags [item_A] [''a''] = [] \<and> searchItems [item_A] ''a'' = [item_A]
     \<and> filterByTags [item_A] [''AI''] = [] \<and> searchItems [item_A] ''AI'' = [item_A]
     \<and> filterByTags [item_B] [''m''] = [] \<and> searchItems [item_B] ''m'' = [item_B]"
proof -
  have gen: "(ts = [] \<longrightarrow> filterByTags items ts = items)
     \<and> (ts \<noteq> [] \<longrightarrow>
          filterByTags items ts = filter (\<lambda>item. \<exists>tag\<in>set ts. tag \<in> set (tags item)) items)"
    by (simp add: filterByTags_def some_iff array_includes_def)
  have f1: "filterByTags [item_A] [''ai''] = [item_A]"
    by (simp add: filterByTags_def some_def array_includes_def item_A_def)
  have f2: "filterByTags [item_A] [''a''] = []"
    by (simp add: filterByTags_def some_def array_includes_def item_A_def)
  have f3: "filterByTags [item_A] [''AI''] = []"
    by (simp add: filterByTags_def some_def array_includes_def item_A_def)
  have s1: "searchItems [item_A] ''a'' = [item_A]"
    by (simp add: item_A_def searchItems_def) code_simp
  have s2: "searchItems [item_A] ''AI'' = [item_A]"
    by (simp add: item_A_def searchItems_def) code_simp
  have f4: "filterByTags [item_B] [''m''] = []"
    by (simp add: filterByTags_def some_def array_includes_def item_B_def)
  have s3: "searchItems [item_B] ''m'' = [item_B]"
    by (simp add: item_B_def searchItems_def) code_simp
  show ?thesis using gen f1 f2 f3 f4 s1 s2 s3 by blast
qed

theorem filterByTags_exact_match_witness:
  "[''ml'', ''x''] \<noteq> [] \<and> filterByTags [item_A, item_B] [''ml'', ''x''] = [item_B]
   \<and> filterByTags [item_A, item_B] [] = [item_A, item_B]"
proof -
  have n: "[''ml'', ''x''] \<noteq> ([] :: string list)" by simp
  from filterByTags_exact_match[of "[''ml'', ''x'']" "[item_A, item_B]"] n
  have "filterByTags [item_A, item_B] [''ml'', ''x'']
          = filter (\<lambda>item. \<exists>tag\<in>set [''ml'', ''x'']. tag \<in> set (tags item)) [item_A, item_B]"
    by blast
  then have "filterByTags [item_A, item_B] [''ml'', ''x''] = [item_B]"
    by (simp add: item_A_def item_B_def)
  moreover from filterByTags_exact_match[of "[]" "[item_A, item_B]"]
  have "filterByTags [item_A, item_B] [] = [item_A, item_B]" by blast
  ultimately show ?thesis using n by blast
qed

section \<open>Homepage statistics\<close>

lemma round_half_even_le: "y \<le> of_int M \<Longrightarrow> round_half_even y \<le> M"
proof -
  assume h: "y \<le> of_int M"
  have f: "\<lfloor>y\<rfloor> \<le> M" using h by (simp add: floor_le_iff)
  show ?thesis
  proof (cases "\<lfloor>y\<rfloor> = M")
    case True
    then have "y = of_int M" using h by linarith
    then show ?thesis by (simp add: round_half_even_def)
  next
    case False
    then have "\<lfloor>y\<rfloor> + 1 \<le> M" using f by simp
    then show ?thesis by (auto simp: round_half_even_def Let_def)
  qed
qed

lemma round_half_even_ge: "of_int M \<le> y \<Longrightarrow> M \<le> round_half_even y"
proof -
  assume h: "of_int M \<le> y"
  then have "M \<le> \<lfloor>y\<rfloor>" by (simp add: le_floor_iff)
  then show ?thesis by (auto simp: round_half_even_def Let_def)
qed

lemma round_half_even_of_int: "round_half_even (of_int m) = m"
  by (simp add: round_half_even_def)

lemma binade_eq:
  assumes "x \<noteq> 0" "2 powi e \<le> \<bar>x\<bar>" "\<bar>x\<bar> < 2 powi (e + 1)" "- 1022 \<le> e"
  shows "binade x = e"
proof -
  have a: "(2::real) powr of_int e = 2 powi e"
    by (simp add: powr_real_of_int')
  have b: "(2::real) powr (of_int e + 1) = 2 powi (e + 1)"
    using powr_real_of_int'[of 2 "e + 1"] by simp
  have "\<lfloor>log 2 \<bar>x\<bar>\<rfloor> = e"
    using assms(1-3) by (subst floor_log_eq_powr_iff) (simp_all add: a b)
  then show ?thesis using assms(4) by (simp add: binade_def)
qed

lemma binade_less:
  assumes "x \<noteq> 0" "\<bar>x\<bar> < 2 powi j" "- 1022 < j"
  shows "binade x < j"
proof -
  have a: "(2::real) powr of_int j = 2 powi j"
    by (simp add: powr_real_of_int')
  have "log 2 \<bar>x\<bar> < of_int j" using assms(1,2) by (subst log_less_iff) (simp_all add: a)
  then have "\<lfloor>log 2 \<bar>x\<bar>\<rfloor> < j" by linarith
  then show ?thesis using assms(3) by (simp add: binade_def)
qed

lemma round64_bounded:
  assumes "0 \<le> x" "x \<le> real N" "N < 2 ^ 53"
  shows "\<exists>y. round64 x = Fin y \<and> 0 \<le> y \<and> y \<le> real N"
proof (cases "x = 0")
  case True
  then show ?thesis by (simp add: round64_def)
next
  case False
  then have pos: "0 < x" using assms(1) by simp
  have N: "real N < 2 ^ 53"
    using assms(3) by (metis of_nat_less_iff of_nat_numeral of_nat_power)
  have "\<bar>x\<bar> < 2 powi 53" using assms(2) N pos by simp
  then have "binade x < 53" using False by (intro binade_less) simp_all
  then have e: "binade x \<le> 52" by simp
  define k where "k = nat (52 - binade x)"
  define q :: real where "q = 2 powi (binade x - 52)"
  have q: "q = 1 / 2 ^ k" using e unfolding q_def k_def
    by (simp add: power_int_def field_simps)
  have qpos: "0 < q" by (simp add: q)
  define r where "r = of_int (round_half_even (x / q)) * q"
  have "x / q \<le> of_int (int N * 2 ^ k)"
    using assms(2) by (simp add: q)
  then have "round_half_even (x / q) \<le> int N * 2 ^ k" by (rule round_half_even_le)
  then have "of_int (round_half_even (x / q)) \<le> (of_int (int N * 2 ^ k) :: real)"
    by (simp only: of_int_le_iff)
  then have "r \<le> of_int (int N * 2 ^ k) * q" unfolding r_def using qpos
    by (simp add: mult_right_mono)
  then have up: "r \<le> real N" by (simp add: q)
  have "of_int 0 \<le> x / q" using pos qpos by simp
  then have "0 \<le> round_half_even (x / q)" by (rule round_half_even_ge)
  then have lo: "0 \<le> r" unfolding r_def using qpos by simp
  have "(2::real) ^ 53 \<le> 2 ^ 1024" by (rule power_increasing) auto
  then have "r < 2 ^ 1024" using up N by linarith
  then have "round64 x = Fin r" using False lo
    by (simp add: round64_def Let_def q_def[symmetric] r_def[symmetric])
  then show ?thesis using up lo by blast
qed

text \<open>A dyadic rational with a numerator below \<open>2 ^ 53\<close> is a double.\<close>

lemma round64_dyadic:
  assumes "x = of_int m / 2 ^ i" "\<bar>m\<bar> < 2 ^ 53" "i \<le> 1022"
  shows "round64 x = Fin x"
proof (cases "x = 0")
  case True
  then show ?thesis by (simp add: round64_def)
next
  case False
  have "\<bar>x\<bar> = of_int \<bar>m\<bar> / 2 ^ i" by (simp add: assms(1))
  also have "\<dots> < 2 ^ 53 / 2 ^ i"
  proof -
    have "(of_int \<bar>m\<bar> :: real) < 2 ^ 53" using assms(2) by (metis of_int_less_iff of_int_numeral of_int_power)
    then show ?thesis by (simp add: divide_strict_right_mono)
  qed
  also have "\<dots> = 2 powi (53 - int i)"
    by (simp add: power_int_diff)
  finally have "\<bar>x\<bar> < 2 powi (53 - int i)" .
  then have "binade x < 53 - int i" using False assms(3) by (intro binade_less) simp_all
  then have e: "binade x \<le> 52 - int i" by simp
  define k where "k = nat (52 - int i - binade x)"
  define q :: real where "q = 2 powi (binade x - 52)"
  have eq: "binade x - 52 = - int (i + k)" using e by (simp add: k_def)
  have q: "q = 1 / 2 ^ (i + k)" unfolding q_def eq
    by (simp only: power_int_minus power_int_of_nat inverse_eq_divide)
  have "x / q = of_int (m * 2 ^ k)"
    by (simp add: assms(1) q power_add)
  then have "round_half_even (x / q) = m * 2 ^ k"
    by (simp only: round_half_even_of_int)
  then have r: "of_int (round_half_even (x / q)) * q = x"
    by (simp add: assms(1) q power_add)
  have "(2::real) ^ 53 / 2 ^ i \<le> 2 ^ 53" by (simp add: field_simps)
  moreover have "(2::real) ^ 53 \<le> 2 ^ 1024" by (rule power_increasing) auto
  ultimately have "\<bar>x\<bar> < 2 ^ 1024" using \<open>\<bar>x\<bar> = of_int \<bar>m\<bar> / 2 ^ i\<close> \<open>of_int \<bar>m\<bar> / 2 ^ i < 2 ^ 53 / 2 ^ i\<close> by linarith
  then have "\<not> 2 ^ 1024 \<le> x" "\<not> x \<le> - (2 ^ 1024)" by linarith+
  then show ?thesis using False r
    by (simp add: round64_def Let_def q_def[symmetric])
qed

lemma sum_ratings_bounded:
  assumes "\<forall>item\<in>set xs. 0 \<le> rating item \<and> rating item \<le> 5"
    and "0 \<le> a" "a \<le> real (5 * k)" "5 * (k + length xs) < 2 ^ 53"
  shows "\<exists>y. foldl (\<lambda>sum item. number_add sum (Fin (rating item))) (Fin a) xs = Fin y
            \<and> 0 \<le> y \<and> y \<le> real (5 * (k + length xs))"
  using assms
proof (induction xs arbitrary: a k)
  case Nil
  then show ?case by simp
next
  case (Cons x xs)
  have r: "0 \<le> rating x" "rating x \<le> 5" using Cons.prems(1) by simp_all
  have "0 \<le> a + rating x" using Cons.prems(2) r by simp
  moreover have "a + rating x \<le> real (5 * Suc k)" using Cons.prems(3) r by simp
  moreover have "5 * Suc k < (2::nat) ^ 53" using Cons.prems(4) by simp
  ultimately obtain b where b: "round64 (a + rating x) = Fin b" "0 \<le> b" "b \<le> real (5 * Suc k)"
    using round64_bounded by blast
  have "\<exists>y. foldl (\<lambda>sum item. number_add sum (Fin (rating item))) (Fin b) xs = Fin y
            \<and> 0 \<le> y \<and> y \<le> real (5 * (Suc k + length xs))"
    using Cons.prems(1,4) b(2,3) by (intro Cons.IH) simp_all
  then show ?case by (simp add: b(1))
qed

lemma sum_ratings_exact:
  assumes "\<forall>n\<le>length xs. round64 (a + sum_list (map rating (take n xs)))
                              = Fin (a + sum_list (map rating (take n xs)))"
  shows "foldl (\<lambda>sum item. number_add sum (Fin (rating item))) (Fin a) xs
           = Fin (a + sum_list (map rating xs))"
  using assms
proof (induction xs arbitrary: a)
  case Nil
  then show ?case by simp
next
  case (Cons x xs)
  have "round64 (a + sum_list (map rating (take 1 (x # xs))))
          = Fin (a + sum_list (map rating (take 1 (x # xs))))"
    using Cons.prems by (metis One_nat_def Suc_leI length_Cons zero_less_Suc)
  then have one: "round64 (a + rating x) = Fin (a + rating x)" by simp
  have "\<forall>n\<le>length xs. round64 (a + rating x + sum_list (map rating (take n xs)))
                              = Fin (a + rating x + sum_list (map rating (take n xs)))"
  proof (intro allI impI)
    fix n assume "n \<le> length xs"
    then have "Suc n \<le> length (x # xs)" by simp
    with Cons.prems have "round64 (a + sum_list (map rating (take (Suc n) (x # xs))))
          = Fin (a + sum_list (map rating (take (Suc n) (x # xs))))" by blast
    then show "round64 (a + rating x + sum_list (map rating (take n xs)))
                              = Fin (a + rating x + sum_list (map rating (take n xs)))"
      by (simp add: add.assoc)
  qed
  then have "foldl (\<lambda>sum item. number_add sum (Fin (rating item))) (Fin (a + rating x)) xs
           = Fin (a + rating x + sum_list (map rating xs))" by (rule Cons.IH)
  then show ?case by (simp add: one add.assoc)
qed

lemma round64_four_thirds: "round64 (4 / 3) = Fin (6004799503160661 / 2 ^ 52)"
proof -
  have b: "binade (4 / 3) = 0" by (rule binade_eq) simp_all
  have q: "(2::real) powi (0 - 52) = 1 / 2 ^ 52"
    by (simp add: power_int_def field_simps)
  have r: "round_half_even (4 / 3 / (1 / 2 ^ 52)) = 6004799503160661"
    by (simp add: round_half_even_def)
  show ?thesis
    unfolding round64_def Let_def b q r by simp
qed

lemma avg_1_1_2:
  "averageRating (calculateHomepageStatistics dataset_1_1_2) = Fin (6004799503160661 / 2 ^ 52)"
proof -
  have one: "round64 1 = Fin 1" using round64_dyadic[of 1 1 0] by simp
  have two: "round64 2 = Fin 2" using round64_dyadic[of 2 2 0] by simp
  have four: "round64 4 = Fin 4" using round64_dyadic[of 4 4 0] by simp
  show ?thesis
    by (simp add: calculateHomepageStatistics_def dataset_1_1_2_def item_A_def item_B_def
        one two four round64_four_thirds)
qed

text \<open>
  Claim C6, as stated, at the dataset of three items rated 1, 1 and 2: the arithmetic
  mean of the ratings is 4/3, which is no double, and the average rating returned is the
  double next to it, \<open>6004799503160661 / 2 ^ 52\<close>.
\<close>

theorem calculateHomepageStatistics_double_mean_counterexample:
  "averageRating (calculateHomepageStatistics dataset_1_1_2) = Fin (6004799503160661 / 2 ^ 52)
   \<and> sum_list (map rating (ds_items dataset_1_1_2)) / real (length (ds_items dataset_1_1_2))
       = 4 / 3
   \<and> averageRating (calculateHomepageStatistics dataset_1_1_2)
       \<noteq> Fin (sum_list (map rating (ds_items dataset_1_1_2))
               / real (length (ds_items dataset_1_1_2)))"
proof -
  have m: "sum_list (map rating (ds_items dataset_1_1_2))
             / real (length (ds_items dataset_1_1_2)) = 4 / 3"
    by (simp add: dataset_1_1_2_def item_A_def item_B_def)
  have ne: "(6004799503160661 / 2 ^ 52 :: real) \<noteq> 4 / 3" by simp
  show ?thesis unfolding m avg_1_1_2 using ne by simp
qed

text \<open>
  Claim C6, amended. The three counters are the lengths of the items, the categories
  and the tags of the dataset. The average rating is 0 for a dataset without items and
  otherwise the mean as double arithmetic computes it: the ratings are added one by one
  to 0, in order, the sum is divided by the number of items, and every operation rounds
  to the nearest double. It is the arithmetic mean of the ratings whenever the sum of
  every initial segment of the ratings and the mean itself are doubles. When every rating
  is between 0 and 5, the average rating is a finite number between 0 and 5.
\<close>

theorem calculateHomepageStatistics_counts_and_double_mean:
  "totalItems (calculateHomepageStatistics d) = length (ds_items d)
 \<and> totalCategories (calculateHomepageStatistics d) = length (ds_categories d)
 \<and> totalTags (calculateHomepageStatistics d) = length (ds_tags d)
 \<and> averageRating (calculateHomepageStatistics d) =
      (if ds_items d = [] then Fin 0
       else number_div_pos
              (foldl (\<lambda>sum item. number_add sum (Fin (rating item))) (Fin 0) (ds_items d))
              (real (length (ds_items d))))
 \<and> (ds_items d \<noteq> []
      \<and> (\<forall>n\<le>length (ds_items d).
            round64 (sum_list (map rating (take n (ds_items d))))
              = Fin (sum_list (map rating (take n (ds_items d)))))
      \<and> round64 (sum_list (map rating (ds_items d)) / real (length (ds_items d)))
            = Fin (sum_list (map rating (ds_items d)) / real (length (ds_items d)))
      \<longrightarrow> averageRating (calculateHomepageStatistics d)
            = Fin (sum_list (map rating (ds_items d)) / real (length (ds_items d))))
 \<and> ((\<forall>item\<in>set (ds_items d). 0 \<le> rating item \<and> rating item \<le> 5)
      \<and> length (ds_items d) < 2 ^ 32
      \<longrightarrow> (\<exists>y. averageRating (calculateHomepageStatistics d) = Fin y \<and> 0 \<le> y \<and> y \<le> 5))"
proof -
  define xs where "xs = ds_items d"
  define total where "total = foldl (\<lambda>sum item. number_add sum (Fin (rating item))) (Fin 0) xs"
  have avg: "averageRating (calculateHomepageStatistics d) =
      (if xs = [] then Fin 0 else number_div_pos total (real (length xs)))"
    by (simp add: calculateHomepageStatistics_def Let_def xs_def total_def)
  have exact: "averageRating (calculateHomepageStatistics d)
            = Fin (sum_list (map rating xs) / real (length xs))"
    if ne: "xs \<noteq> []"
      and ps: "\<forall>n\<le>length xs. round64 (sum_list (map rating (take n xs)))
              = Fin (sum_list (map rating (take n xs)))"
      and q: "round64 (sum_list (map rating xs) / real (length xs))
            = Fin (sum_list (map rating xs) / real (length xs))"
  proof -
    have "\<forall>n\<le>length xs. round64 (0 + sum_list (map rating (take n xs)))
              = Fin (0 + sum_list (map rating (take n xs)))"
      using ps by simp
    then have "total = Fin (0 + sum_list (map rating xs))"
      unfolding total_def by (rule sum_ratings_exact)
    then show ?thesis using ne q by (simp add: avg)
  qed
  have bound: "\<exists>y. averageRating (calculateHomepageStatistics d) = Fin y \<and> 0 \<le> y \<and> y \<le> 5"
    if r: "\<forall>item\<in>set xs. 0 \<le> rating item \<and> rating item \<le> 5"
      and len: "length xs < 2 ^ 32"
  proof (cases "xs = []")
    case True
    then show ?thesis by (simp add: avg)
  next
    case False
    then have n: "0 < real (length xs)" by simp
    have "5 * (0 + length xs) < (2::nat) ^ 53" using len by simp
    with r obtain s where s: "total = Fin s" "0 \<le> s" "s \<le> real (5 * (0 + length xs))"
      unfolding total_def using sum_ratings_bounded[of xs 0 0] by auto
    have "0 \<le> s / real (length xs)" using s(2) n by simp
    moreover have "s / real (length xs) \<le> real 5" using s(3) n by (simp add: divide_le_eq)
    moreover have "(5::nat) < 2 ^ 53" by simp
    ultimately obtain y where "round64 (s / real (length xs)) = Fin y" "0 \<le> y" "y \<le> real 5"
      using round64_bounded by blast
    then show ?thesis using False s(1) by (simp add: avg)
  qed
  have counts: "totalItems (calculateHomepageStatistics d) = length (ds_items d)
     \<and> totalCategories (calculateHomepageStatistics d) = length (ds_categories d)
     \<and> totalTags (calculateHomepageStatistics d) = length (ds_tags d)"
    by (simp add: calculateHomepageStatistics_def Let_def)
  show ?thesis
    using counts avg[unfolded total_def] exact bound unfolding xs_def by blast
qed

theorem calculateHomepageStatistics_counts_and_double_mean_witness:
  "ds_items example_dataset = [item_A, item_B]
   \<and> 0 \<le> rating item_A \<and> rating item_A \<le> 5 \<and> 0 \<le> rating item_B \<and> rating item_B \<le> 5
   \<and> averageRating (calculateHomepageStatistics example_dataset) = Fin 3.25
   \<and> totalItems (calculateHomepageStatistics example_dataset) = 2"
proof -
  let ?xs = "ds_items example_dataset"
  have i: "?xs = [item_A, item_B]" by (simp add: example_dataset_def)
  have b: "0 \<le> rating item_A \<and> rating item_A \<le> 5 \<and> 0 \<le> rating item_B \<and> rating item_B \<le> 5"
    by (simp add: item_A_def item_B_def)
  have r0: "round64 0 = Fin 0" by (simp add: round64_def)
  have r1: "round64 (9 / 2) = Fin (9 / 2)" using round64_dyadic[of "9 / 2" 9 1] by simp
  have r2: "round64 (13 / 2) = Fin (13 / 2)" using round64_dyadic[of "13 / 2" 13 1] by simp
  have r3: "round64 (13 / 4) = Fin (13 / 4)" using round64_dyadic[of "13 / 4" 13 2] by simp
  have ps: "round64 (sum_list (map rating (take n ?xs))) = Fin (sum_list (map rating (take n ?xs)))"
    if "n \<le> length ?xs" for n
  proof -
    from that consider "n = 0" | "n = 1" | "n = 2" unfolding i by force
    then show ?thesis
      by cases (simp_all add: i item_A_def item_B_def r0 r1 r2)
  qed
  have m: "sum_list (map rating ?xs) / real (length ?xs) = 13 / 4"
    by (simp add: i item_A_def item_B_def)
  have ne: "?xs \<noteq> []" by (simp add: i)
  from calculateHomepageStatistics_counts_and_double_mean[of example_dataset] ne ps r3
  have "averageRating (calculateHomepageStatistics example_dataset) = Fin (13 / 4)
    \<and> totalItems (calculateHomepageStatistics example_dataset) = length ?xs"
    unfolding m by blast
  then show ?thesis using i b by simp
qed

section \<open>Validation\<close>

lemma typeof_string_iff: "typeof v = ''string'' \<longleftrightarrow> (\<exists>s. v = JStr s)"
  by (cases v) auto

lemma typeof_number_iff: "typeof v = ''number'' \<longleftrightarrow> (\<exists>r. v = JNum r)"
  by (cases v) auto

lemma isArray_iff: "isArray v \<longleftrightarrow> (\<exists>xs. v = JArr xs)"
  by (cases v) auto

lemma check_fields_required:
  "check_fields (JObj ps) requiredFields \<longleftrightarrow>
     (\<exists>s. map_of ps ''name'' = Some (JStr s))
   \<and> (\<exists>s. map_of ps ''category'' = Some (JStr s))
   \<and> (\<exists>elems. map_of ps ''tags'' = Some (JArr elems) \<and> (\<forall>e\<in>set elems. \<exists>s. e = JStr s))
   \<and> (\<exists>r. map_of ps ''rating'' = Some (JNum r))
   \<and> (\<exists>s. map_of ps ''description'' = Some (JStr s))"
  by (auto simp: requiredFields_def Let_def typeof_string_iff typeof_number_iff list_all_iff
      split: jsval.splits option.splits)

lemma isValidItem_iff:
  "isValidItem v \<longleftrightarrow>
     (\<exists>ps. v = JObj ps
        \<and> (\<exists>s. map_of ps ''name'' = Some (JStr s))
        \<and> (\<exists>s. map_of ps ''category'' = Some (JStr s))
        \<and> (\<exists>elems. map_of ps ''tags'' = Some (JArr elems) \<and> (\<forall>e\<in>set elems. \<exists>s. e = JStr s))
        \<and> (\<exists>r. map_of ps ''rating'' = Some (JNum r)
              \<and> \<not> number_less r (Fin 0) \<and> \<not> number_less (Fin 5) r)
        \<and> (\<exists>s. map_of ps ''description'' = Some (JStr s)))"
proof (cases v)
  case (JObj ps)
  show ?thesis unfolding JObj isValidItem_def check_fields_required
    by (auto simp: rating_out_of_range_def)
next
  case (JArr xs)
  then show ?thesis by (simp add: isValidItem_def requiredFields_def)
qed (simp_all add: isValidItem_def requiredFields_def)

lemma no_invalid_index:
  "filter (\<lambda>index. \<not> P (elems ! index)) [0 ..< length elems] = [] \<longleftrightarrow> (\<forall>e\<in>set elems. P e)"
  by (auto simp: filter_empty_conv all_set_conv_all_nth)

lemma isValidDataset_iff:
  "isValidDataset v \<longleftrightarrow>
     (\<exists>ps. v = JObj ps
        \<and> (\<exists>elems. map_of ps ''items'' = Some (JArr elems) \<and> (\<forall>e\<in>set elems. isValidItem e))
        \<and> (\<exists>s. map_of ps ''type'' = Some (JStr s))
        \<and> (\<exists>cs. map_of ps ''categories'' = Some (JArr cs))
        \<and> (\<exists>ts. map_of ps ''tags'' = Some (JArr ts)))"
proof (cases v)
  case (JObj ps)
  show ?thesis unfolding JObj isValidDataset_def
    by (auto simp: Let_def typeof_string_iff isArray_iff no_invalid_index
        split: jsval.splits option.splits)
qed (simp_all add: isValidDataset_def)

text \<open>
  What \<open>isValidItem\<close> rejects: a candidate that is \<open>null\<close> or not of type object; one
  that lacks one of the properties name, category, tags, rating, description; one whose
  name, category or description is not a string or whose rating is not a number; one
  whose tags are not an array or hold an element that is not a string; and one whose
  rating is a number below 0 or above 5 (the infinities included). The result of an
  object depends on these five properties only.
\<close>

lemma isValidItem_rejects:
  "((v = JNull \<or> typeof v \<noteq> ''object'') \<longrightarrow> \<not> isValidItem v)
 \<and> (\<forall>field\<in>{''name'', ''category'', ''tags'', ''rating'', ''description''}.
       \<not> has_property field v \<longrightarrow> \<not> isValidItem v)
 \<and> (\<forall>field\<in>{''name'', ''category'', ''description''}.
       typeof (get v field) \<noteq> ''string'' \<longrightarrow> \<not> isValidItem v)
 \<and> (typeof (get v ''rating'') \<noteq> ''number'' \<longrightarrow> \<not> isValidItem v)
 \<and> (\<not> isArray (get v ''tags'') \<longrightarrow> \<not> isValidItem v)
 \<and> (\<forall>elems. get v ''tags'' = JArr elems \<and> (\<exists>tag\<in>set elems. typeof tag \<noteq> ''string'')
       \<longrightarrow> \<not> isValidItem v)
 \<and> (\<forall>x. get v ''rating'' = JNum (Fin x) \<and> (x < 0 \<or> 5 < x) \<longrightarrow> \<not> isValidItem v)
 \<and> (get v ''rating'' = JNum NegInfinity \<or> get v ''rating'' = JNum PosInfinity
       \<longrightarrow> \<not> isValidItem v)
 \<and> (\<forall>ps ps'. (\<forall>field\<in>{''name'', ''category'', ''tags'', ''rating'', ''description''}.
                  map_of ps field = map_of ps' field)
       \<longrightarrow> isValidItem (JObj ps) = isValidItem (JObj ps'))"
proof -
  have a: "(v = JNull \<or> typeof v \<noteq> ''object'') \<longrightarrow> \<not> isValidItem v"
    by (auto simp: isValidItem_def)
  have b: "\<forall>field\<in>{''name'', ''category'', ''tags'', ''rating'', ''description''}.
       \<not> has_property field v \<longrightarrow> \<not> isValidItem v"
    by (auto simp: isValidItem_iff)
  have c: "\<forall>field\<in>{''name'', ''category'', ''description''}.
       typeof (get v field) \<noteq> ''string'' \<longrightarrow> \<not> isValidItem v"
    by (auto simp: isValidItem_iff)
  have d: "typeof (get v ''rating'') \<noteq> ''number'' \<longrightarrow> \<not> isValidItem v"
    by (auto simp: isValidItem_iff)
  have e: "\<not> isArray (get v ''tags'') \<longrightarrow> \<not> isValidItem v"
    by (auto simp: isValidItem_iff)
  have f: "\<forall>elems. get v ''tags'' = JArr elems \<and> (\<exists>tag\<in>set elems. typeof tag \<noteq> ''string'')
       \<longrightarrow> \<not> isValidItem v"
    by (fastforce simp: isValidItem_iff)
  have g: "\<forall>x. get v ''rating'' = JNum (Fin x) \<and> (x < 0 \<or> 5 < x) \<longrightarrow> \<not> isValidItem v"
    by (auto simp: isValidItem_iff)
  have h: "get v ''rating'' = JNum NegInfinity \<or> get v ''rating'' = JNum PosInfinity
       \<longrightarrow> \<not> isValidItem v"
    by (auto simp: isValidItem_iff)
  have i: "\<forall>ps ps'. (\<forall>field\<in>{''name'', ''category'', ''tags'', ''rating'', ''description''}.
                  map_of ps field = map_of ps' field)
       \<longrightarrow> isValidItem (JObj ps) = isValidItem (JObj ps')"
    by (simp add: isValidItem_iff)
  show ?thesis using a b c d e f g h i by blast
qed

lemma isValidItem_rejects_example:
  "get (json_item (Fin 5.5)) ''rating'' = JNum (Fin 5.5) \<and> (5::real) < 5.5
   \<and> \<not> isValidItem (json_item (Fin 5.5))
   \<and> \<not> has_property ''slug'' (json_item (Fin 4)) \<and> isValidItem (json_item (Fin 4))
   \<and> isValidItem (JObj ((''slug'', JNum NaN) # (''createdAt'', JNull) #
        [(''id'', JStr ''1''), (''name'', JStr ''A''), (''description'', JStr ''d''),
         (''category'', JStr ''X''), (''tags'', JArr [JStr ''ai'']), (''rating'', JNum (Fin 4))]))"
proof -
  have r: "get (json_item (Fin 5.5)) ''rating'' = JNum (Fin 5.5)"
    by (simp add: json_item_def)
  have lt: "(5::real) < 5.5" by simp
  from isValidItem_rejects[of "json_item (Fin 5.5)"] r lt
  have rej: "\<not> isValidItem (json_item (Fin 5.5))" by blast
  have ok: "isValidItem (json_item (Fin 4))"
    by (simp add: isValidItem_iff json_item_def)
  have agree: "\<forall>field\<in>{''name'', ''category'', ''tags'', ''rating'', ''description''}.
      map_of [(''id'', JStr ''1''), (''name'', JStr ''A''), (''description'', JStr ''d''),
         (''category'', JStr ''X''), (''tags'', JArr [JStr ''ai'']), (''rating'', JNum (Fin 4))] field
      = map_of ((''slug'', JNum NaN) # (''createdAt'', JNull) #
        [(''id'', JStr ''1''), (''name'', JStr ''A''), (''description'', JStr ''d''),
         (''category'', JStr ''X''), (''tags'', JArr [JStr ''ai'']), (''rating'', JNum (Fin 4))]) field"
    by simp
  from isValidItem_rejects[of JNull] agree ok
  have "isValidItem (JObj ((''slug'', JNum NaN) # (''createdAt'', JNull) #
        [(''id'', JStr ''1''), (''name'', JStr ''A''), (''description'', JStr ''d''),
         (''category'', JStr ''X''), (''tags'', JArr [JStr ''ai'']), (''rating'', JNum (Fin 4))]))"
    unfolding json_item_def by blast
  moreover have "\<not> has_property ''slug'' (json_item (Fin 4))"
    by (simp add: json_item_def)
  ultimately show ?thesis using r lt rej ok by blast
qed

text \<open>
  Claim C7 at the candidate
  \<open>{id: "1", name: "A", description: "d", category: "X", tags: ["ai"], rating: NaN}\<close>: its
  rating is a number that is not in the closed interval from 0 to 5, so the claim has
  \<open>isValidItem\<close> return false, and \<open>isValidItem\<close> returns true. The range check
  \<open>item.rating < 0 || item.rating > 5\<close>, which its comment and its message describe as
  the validation that the rating is between 0 and 5, is false of NaN.
\<close>

theorem isValidItem_misses_NaN_rating:
  "get (json_item NaN) ''rating'' = JNum NaN
   \<and> typeof (get (json_item NaN) ''rating'') = ''number''
   \<and> \<not> (\<exists>x. get (json_item NaN) ''rating'' = JNum (Fin x) \<and> 0 \<le> x \<and> x \<le> 5)
   \<and> \<not> rating_out_of_range (json_item NaN)
   \<and> isValidItem (json_item NaN)"
  by (simp add: isValidItem_iff rating_out_of_range_def json_item_def)

theorem isValidItem_misses_NaN_rating_witness:
  "isValidItem (json_item NaN) \<and> \<not> rating_out_of_range (json_item NaN)"
  using isValidItem_misses_NaN_rating by blast

text \<open>
  Claim C10. An object whose name, category and description are strings, whose tags
  are an array of strings and whose rating is NaN is accepted by \<open>isValidItem\<close>: NaN has
  type number, and it is neither less than 0 nor greater than 5, although its rating is
  no number between 0 and 5. A dataset of the required shape with this item as its only
  item is accepted by \<open>isValidDataset\<close>.
\<close>

theorem isValidItem_accepts_NaN_rating:
  assumes "map_of ps ''name'' = Some (JStr n)"
    and "map_of ps ''category'' = Some (JStr c)"
    and "map_of ps ''description'' = Some (JStr d)"
    and "map_of ps ''tags'' = Some (JArr ts)"
    and "\<forall>tag\<in>set ts. typeof tag = ''string''"
    and "map_of ps ''rating'' = Some (JNum NaN)"
  shows "isValidItem (JObj ps)
     \<and> typeof (JNum NaN) = ''number''
     \<and> \<not> (number_less NaN (Fin 0) \<or> number_less (Fin 5) NaN)
     \<and> (\<forall>x. 0 \<le> x \<and> x \<le> 5 \<longrightarrow> get (JObj ps) ''rating'' \<noteq> JNum (Fin x))
     \<and> isValidDataset (JObj [(''type'', JStr ty), (''items'', JArr [JObj ps]),
          (''categories'', JArr cs), (''tags'', JArr tgs)])"
proof -
  have v: "isValidItem (JObj ps)"
    using assms by (auto simp: isValidItem_iff typeof_string_iff)
  then have "isValidDataset (JObj [(''type'', JStr ty), (''items'', JArr [JObj ps]),
          (''categories'', JArr cs), (''tags'', JArr tgs)])"
    by (simp add: isValidDataset_iff)
  then show ?thesis using v assms(6) by simp
qed

theorem isValidItem_accepts_NaN_rating_witness:
  "isValidItem (json_item NaN)
   \<and> isValidDataset (json_dataset (JStr ''startups'') [json_item NaN])"
  using isValidItem_accepts_NaN_rating[of
      "[(''id'', JStr ''1''), (''name'', JStr ''A''), (''description'', JStr ''d''),
        (''category'', JStr ''X''), (''tags'', JArr [JStr ''ai'']), (''rating'', JNum NaN)]"
      "''A''" "''X''" "''d''" "[JStr ''ai'']" "''startups''" "[JStr ''X'', JStr ''Y'']"
      "[JStr ''ai'', JStr ''ml'']"]
  by (simp add: json_item_def json_dataset_def)

section \<open>Loading and caching\<close>

lemma loadDataset_try_result:
  "snd (loadDataset_try j c) =
     (if \<not> truthy j then
        Inl ''Dataset file is missing or empty. Please ensure data/dataset.json exists and contains valid data.''
      else if typeof j \<noteq> ''object'' then Inl ''Dataset must be a valid JSON object''
      else if \<not> truthy (get j ''type'') then
        Inl (''Dataset must have a '' @ [CHR 0x22] @ ''type'' @ [CHR 0x22] @ '' field'')
      else if \<not> isArray (get j ''items'') then
        Inl (''Dataset must have an '' @ [CHR 0x22] @ ''items'' @ [CHR 0x22] @ '' array'')
      else if \<not> isArray (get j ''categories'') then
        Inl (''Dataset must have a '' @ [CHR 0x22] @ ''categories'' @ [CHR 0x22] @ '' array'')
      else if \<not> isArray (get j ''tags'') then
        Inl (''Dataset must have a '' @ [CHR 0x22] @ ''tags'' @ [CHR 0x22] @ '' array'')
      else Inr j)"
  by (simp add: loadDataset_try_def Let_def)

lemma loadDataset_result:
  "snd (loadDataset j c) =
     (case snd (loadDataset_try j c) of
        Inl message \<Rightarrow> Inl (''Dataset loading failed: '' @ message)
      | Inr dataset \<Rightarrow> Inr dataset)"
  by (cases "loadDataset_try j c") (simp add: loadDataset_def split: sum.splits)

lemma loadDataset_cases:
  "(\<not> (\<not> truthy j \<or> typeof j \<noteq> ''object'' \<or> \<not> truthy (get j ''type'')
        \<or> \<not> isArray (get j ''items'') \<or> \<not> isArray (get j ''categories'')
        \<or> \<not> isArray (get j ''tags''))
      \<longrightarrow> snd (loadDataset j c) = Inr j)
 \<and> ((\<not> truthy j \<or> typeof j \<noteq> ''object'' \<or> \<not> truthy (get j ''type'')
        \<or> \<not> isArray (get j ''items'') \<or> \<not> isArray (get j ''categories'')
        \<or> \<not> isArray (get j ''tags''))
      \<longrightarrow> (\<exists>m. snd (loadDataset j c) = Inl (''Dataset loading failed: '' @ m) \<and> m \<noteq> []))"
  unfolding loadDataset_result loadDataset_try_result by simp

lemma loadDataset_console: "\<exists>l ls. fst (loadDataset j c) = c @ l # ls"
  by (simp add: loadDataset_def loadDataset_try_def Let_def)

lemma loadDataset_Inr_truthy: "loadDataset j c = (c', Inr d) \<Longrightarrow> d = j \<and> truthy d"
  using loadDataset_cases[of j c] by auto

lemma getDataset_cached:
  "truthy (cachedDataset st) \<Longrightarrow> getDataset j st = (st, Inr (cachedDataset st))"
  by (simp add: getDataset_def)

lemma getDataset_success:
  "getDataset j st = (st', Inr d) \<Longrightarrow> cachedDataset st' = d \<and> truthy d"
  by (auto simp: getDataset_def split: if_splits prod.splits sum.splits
      dest: loadDataset_Inr_truthy)

lemma getDataset_calls_cached:
  "truthy (cachedDataset st) \<Longrightarrow>
     getDataset_calls n j st = (st, replicate n (Inr (cachedDataset st)))"
  by (induction n) (auto simp: getDataset_cached)

text \<open>
  Claim C8, as stated, at two fixtures with array \<open>items\<close>, \<open>categories\<close> and \<open>tags\<close>.
  In \<open>{type: 42, items: [], categories: ["X", "Y"], tags: ["ai", "ml"]}\<close> the type is
  not a string, and \<open>loadDataset\<close> returns the fixture. In
  \<open>{type: "", items: [], categories: ["X", "Y"], tags: ["ai", "ml"]}\<close> the type is
  present and is a string, and \<open>loadDataset\<close> throws.
\<close>

theorem loadDataset_counterexample:
  "typeof (get (json_dataset (JNum (Fin 42)) []) ''type'') \<noteq> ''string''
   \<and> snd (loadDataset (json_dataset (JNum (Fin 42)) []) [])
       = Inr (json_dataset (JNum (Fin 42)) [])
   \<and> truthy (json_dataset (JStr []) []) \<and> typeof (json_dataset (JStr []) []) = ''object''
   \<and> has_property ''type'' (json_dataset (JStr []) [])
   \<and> typeof (get (json_dataset (JStr []) []) ''type'') = ''string''
   \<and> isArray (get (json_dataset (JStr []) []) ''items'')
   \<and> isArray (get (json_dataset (JStr []) []) ''categories'')
   \<and> isArray (get (json_dataset (JStr []) []) ''tags'')
   \<and> isl (snd (loadDataset (json_dataset (JStr []) []) []))"
  unfolding loadDataset_result loadDataset_try_result
  by (simp add: json_dataset_def)

text \<open>
  Claim C8, amended. \<open>loadDataset\<close> throws exactly when the source is falsy (missing or
  empty), is not of type object, has a falsy \<open>type\<close> (absent, \<open>null\<close>, \<open>false\<close>, 0, NaN or the
  empty string), or has an \<open>items\<close>, \<open>categories\<close> or \<open>tags\<close> that is not an array. The
  error it throws carries a message, \<open>Dataset loading failed: \<close> followed by the reason.
  In every other case it returns the source as it is.
\<close>

theorem loadDataset_throws_exactly:
  "((\<exists>m. snd (loadDataset j c) = Inl m) \<longleftrightarrow>
      (\<not> truthy j \<or> typeof j \<noteq> ''object'' \<or> \<not> truthy (get j ''type'')
        \<or> \<not> isArray (get j ''items'') \<or> \<not> isArray (get j ''categories'')
        \<or> \<not> isArray (get j ''tags'')))
 \<and> ((\<forall>m. snd (loadDataset j c) \<noteq> Inl m) \<longrightarrow> snd (loadDataset j c) = Inr j)
 \<and> (\<forall>m. snd (loadDataset j c) = Inl m \<longrightarrow>
       (\<exists>reason. reason \<noteq> [] \<and> m = ''Dataset loading failed: '' @ reason))
 \<and> (truthy (get j ''type'') \<longleftrightarrow>
       (\<exists>v. get j ''type'' = v \<and> v \<noteq> JUndefined \<and> v \<noteq> JNull \<and> v \<noteq> JBool False
          \<and> v \<noteq> JNum (Fin 0) \<and> v \<noteq> JNum NaN \<and> v \<noteq> JStr []))"
proof -
  define bad where "bad \<longleftrightarrow> (\<not> truthy j \<or> typeof j \<noteq> ''object'' \<or> \<not> truthy (get j ''type'')
        \<or> \<not> isArray (get j ''items'') \<or> \<not> isArray (get j ''categories'')
        \<or> \<not> isArray (get j ''tags''))"
  define res where "res = snd (loadDataset j c)"
  define pre where "pre = ''Dataset loading failed: ''"
  note cases = loadDataset_cases[of j c, folded bad_def res_def pre_def]
  have c1: "\<not> bad \<Longrightarrow> res = Inr j" using cases by blast
  have c2: "bad \<Longrightarrow> \<exists>m. res = Inl (pre @ m) \<and> m \<noteq> []" using cases by blast
  have A: "(\<exists>m. res = Inl m) \<longleftrightarrow> bad"
    using c1 c2 by (cases bad) auto
  have B: "(\<forall>m. res \<noteq> Inl m) \<longrightarrow> res = Inr j"
    using c1 c2 by (cases bad) auto
  have C: "\<forall>m. res = Inl m \<longrightarrow> (\<exists>reason. reason \<noteq> [] \<and> m = pre @ reason)"
    using c1 c2 by (cases bad) auto
  have ty: "truthy v \<longleftrightarrow> (v \<noteq> JUndefined \<and> v \<noteq> JNull \<and> v \<noteq> JBool False
          \<and> v \<noteq> JNum (Fin 0) \<and> v \<noteq> JNum NaN \<and> v \<noteq> JStr [])" for v
    by (cases v) auto
  have D: "truthy (get j ''type'') \<longleftrightarrow>
       (\<exists>v. get j ''type'' = v \<and> v \<noteq> JUndefined \<and> v \<noteq> JNull \<and> v \<noteq> JBool False
          \<and> v \<noteq> JNum (Fin 0) \<and> v \<noteq> JNum NaN \<and> v \<noteq> JStr [])"
    using ty[of "get j ''type''"] by simp
  show ?thesis
    using A[unfolded bad_def res_def] B[unfolded res_def] C[unfolded res_def pre_def] D
    by (intro conjI)
qed

theorem loadDataset_throws_exactly_witness:
  "\<not> truthy (get (json_dataset (JStr []) []) ''type'')
   \<and> (\<exists>m. snd (loadDataset (json_dataset (JStr []) []) []) = Inl m)
   \<and> (\<forall>m. snd (loadDataset (json_dataset (JStr ''startups'') [json_item (Fin 4)]) []) \<noteq> Inl m)
   \<and> snd (loadDataset (json_dataset (JStr ''startups'') [json_item (Fin 4)]) [])
       = Inr (json_dataset (JStr ''startups'') [json_item (Fin 4)])"
proof -
  have f: "\<not> truthy (get (json_dataset (JStr []) []) ''type'')"
    by (simp add: json_dataset_def)
  from loadDataset_throws_exactly[of "json_dataset (JStr []) []" "[]"] f
  have thrown: "\<exists>m. snd (loadDataset (json_dataset (JStr []) []) []) = Inl m" by blast
  have ok: "\<not> (\<not> truthy (json_dataset (JStr ''startups'') [json_item (Fin 4)])
        \<or> typeof (json_dataset (JStr ''startups'') [json_item (Fin 4)]) \<noteq> ''object''
        \<or> \<not> truthy (get (json_dataset (JStr ''startups'') [json_item (Fin 4)]) ''type'')
        \<or> \<not> isArray (get (json_dataset (JStr ''startups'') [json_item (Fin 4)]) ''items'')
        \<or> \<not> isArray (get (json_dataset (JStr ''startups'') [json_item (Fin 4)]) ''categories'')
        \<or> \<not> isArray (get (json_dataset (JStr ''startups'') [json_item (Fin 4)]) ''tags''))"
    by (simp add: json_dataset_def)
  from loadDataset_throws_exactly[of "json_dataset (JStr ''startups'') [json_item (Fin 4)]" "[]"] ok
  have "(\<forall>m. snd (loadDataset (json_dataset (JStr ''startups'') [json_item (Fin 4)]) []) \<noteq> Inl m)
   \<and> snd (loadDataset (json_dataset (JStr ''startups'') [json_item (Fin 4)]) [])
       = Inr (json_dataset (JStr ''startups'') [json_item (Fin 4)])"
    by blast
  then show ?thesis using f thrown by blast
qed

text \<open>
  Claim C9. A call of \<open>getDataset\<close> that finds the cache empty invokes \<open>loadDataset\<close>:
  result and console are those of \<open>loadDataset\<close>, a returned dataset is stored in the
  cache and a thrown error leaves the cache as it was. Once a call has returned a
  dataset, every later sequence of calls returns that dataset each time and leaves the
  module state, cache and console, as it is, whatever the fixture holds then; since
  \<open>loadDataset\<close> always writes to the console, it is not invoked again. The module state
  changes by \<open>getDataset\<close> only.
\<close>

theorem getDataset_memoizes:
  "(\<not> truthy (cachedDataset st) \<longrightarrow>
      snd (getDataset j st) = snd (loadDataset j (console st))
    \<and> console (fst (getDataset j st)) = fst (loadDataset j (console st))
    \<and> (\<forall>d. snd (loadDataset j (console st)) = Inr d \<longrightarrow>
          cachedDataset (fst (getDataset j st)) = d)
    \<and> (\<forall>m. snd (loadDataset j (console st)) = Inl m \<longrightarrow>
          cachedDataset (fst (getDataset j st)) = cachedDataset st))
 \<and> (\<forall>st' d. getDataset j st = (st', Inr d) \<longrightarrow>
       cachedDataset st' = d
     \<and> (\<forall>n j'. getDataset_calls n j' st' = (st', replicate n (Inr d))))
 \<and> fst (loadDataset j c) \<noteq> c"
proof -
  have a: "\<not> truthy (cachedDataset st) \<longrightarrow>
      snd (getDataset j st) = snd (loadDataset j (console st))
    \<and> console (fst (getDataset j st)) = fst (loadDataset j (console st))
    \<and> (\<forall>d. snd (loadDataset j (console st)) = Inr d \<longrightarrow>
          cachedDataset (fst (getDataset j st)) = d)
    \<and> (\<forall>m. snd (loadDataset j (console st)) = Inl m \<longrightarrow>
          cachedDataset (fst (getDataset j st)) = cachedDataset st)"
    by (cases "loadDataset j (console st)") (auto simp: getDataset_def split: sum.splits)
  have b: "\<forall>st' d. getDataset j st = (st', Inr d) \<longrightarrow>
       cachedDataset st' = d
     \<and> (\<forall>n j'. getDataset_calls n j' st' = (st', replicate n (Inr d)))"
    using getDataset_success getDataset_calls_cached by blast
  have c: "fst (loadDataset j c) \<noteq> c"
    using loadDataset_console[of j c] by auto
  show ?thesis using a b c by blast
qed

theorem getDataset_memoizes_witness:
  "\<not> truthy (cachedDataset initial_state)
   \<and> snd (getDataset (json_dataset (JStr ''startups'') []) initial_state)
       = Inr (json_dataset (JStr ''startups'') [])
   \<and> getDataset_calls 3 JNull (fst (getDataset (json_dataset (JStr ''startups'') []) initial_state))
       = (fst (getDataset (json_dataset (JStr ''startups'') []) initial_state),
          replicate 3 (Inr (json_dataset (JStr ''startups'') [])))"
proof -
  let ?j = "json_dataset (JStr ''startups'') []"
  have e: "\<not> truthy (cachedDataset initial_state)"
    by (simp add: initial_state_def)
  have l: "snd (loadDataset ?j (console initial_state)) = Inr ?j"
    unfolding loadDataset_result loadDataset_try_result by (simp add: json_dataset_def)
  from getDataset_memoizes[of initial_state ?j] e l
  have r: "snd (getDataset ?j initial_state) = Inr ?j" by simp
  then have "getDataset ?j initial_state = (fst (getDataset ?j initial_state), Inr ?j)"
    by (simp add: prod_eq_iff)
  with getDataset_memoizes[of initial_state ?j]
  have "getDataset_calls 3 JNull (fst (getDataset ?j initial_state))
          = (fst (getDataset ?j initial_state), replicate 3 (Inr ?j))"
    by blast
  then show ?thesis using e r by blast
qed

section \<open>Sorting\<close>

lemma mset_insert_sorted: "mset (insert_sorted f x ys) = add_mset x (mset ys)"
  by (induction ys) auto

lemma mset_array_sort: "mset (array_sort f xs) = mset xs"
  by (induction xs) (auto simp: mset_insert_sorted)

lemma set_insert_sorted: "set (insert_sorted f x ys) = insert x (set ys)"
  by (induction ys) auto

lemma consistent_flip_sign:
  assumes "consistent_comparator f" "f a b < 0"
  shows "f b a > 0"
proof (rule ccontr)
  assume n: "\<not> f b a > 0"
  have refl: "f a a = 0" using assms(1) by (simp add: consistent_comparator_def)
  show False
  proof (cases "f b a = 0")
    case True
    then have "f a b = 0" using assms(1) unfolding consistent_comparator_def by blast
    then show False using assms(2) by simp
  next
    case False
    then have "f b a < 0" using n by simp
    then have "f a a < 0" using assms unfolding consistent_comparator_def by blast
    then show False using refl by simp
  qed
qed

lemma consistent_flip_sign':
  assumes "consistent_comparator f" "f a b > 0"
  shows "f b a < 0"
proof (rule ccontr)
  assume n: "\<not> f b a < 0"
  have refl: "f a a = 0" using assms(1) by (simp add: consistent_comparator_def)
  show False
  proof (cases "f b a = 0")
    case True
    then have "f a b = 0" using assms(1) unfolding consistent_comparator_def by blast
    then show False using assms(2) by simp
  next
    case False
    then have "f b a > 0" using n by simp
    then have "f a a > 0" using assms unfolding consistent_comparator_def by blast
    then show False using refl by simp
  qed
qed

lemma consistent_total: "consistent_comparator f \<Longrightarrow> f a b \<le> 0 \<or> f b a \<le> 0"
  using consistent_flip_sign'[of f a b] by force

lemma consistent_le_trans:
  assumes c: "consistent_comparator f" and ab: "f a b \<le> 0" and bc: "f b c \<le> 0"
  shows "f a c \<le> 0"
proof (rule ccontr)
  assume "\<not> f a c \<le> 0"
  then have ac: "f a c > 0" by simp
  then have ca: "f c a < 0" using c by (rule consistent_flip_sign'[rotated])
  have sym: "\<And>x y. f x y = 0 \<Longrightarrow> f y x = 0" using c unfolding consistent_comparator_def by blast
  have tr0: "\<And>x y z. f x y = 0 \<Longrightarrow> f y z = 0 \<Longrightarrow> f x z = 0" using c unfolding consistent_comparator_def by blast
  have trl: "\<And>x y z. f x y < 0 \<Longrightarrow> f y z < 0 \<Longrightarrow> f x z < 0" using c unfolding consistent_comparator_def by blast
  have refl: "\<And>x. f x x = 0" using c unfolding consistent_comparator_def by blast
  consider "f a b < 0" "f b c < 0" | "f a b < 0" "f b c = 0" | "f a b = 0" "f b c < 0" | "f a b = 0" "f b c = 0"
    using ab bc by fastforce
  then show False
  proof cases
    case 1
    then have "f a c < 0" by (rule trl)
    then show False using ac by simp
  next
    case 2
    from trl[OF ca 2(1)] have cb: "f c b < 0" .
    from sym[OF 2(2)] have "f c b = 0" .
    then show False using cb by simp
  next
    case 3
    from trl[OF 3(2) ca] have ba: "f b a < 0" .
    from sym[OF 3(1)] have "f b a = 0" .
    then show False using ba by simp
  next
    case 4
    from tr0[OF 4] have "f a c = 0" .
    then show False using ac by simp
  qed
qed

lemma sorted_insert_sorted:
  assumes c: "consistent_comparator f"
  shows "sorted_wrt (\<lambda>a b. f a b \<le> 0) ys \<Longrightarrow> sorted_wrt (\<lambda>a b. f a b \<le> 0) (insert_sorted f x ys)"
proof (induction ys)
  case Nil
  then show ?case by simp
next
  case (Cons y ys)
  show ?case
  proof (cases "f x y \<le> 0")
    case True
    then have "\<forall>z\<in>set ys. f x z \<le> 0"
      using Cons.prems consistent_le_trans[OF c] by auto
    then show ?thesis using True Cons.prems by simp
  next
    case False
    then have "f y x \<le> 0" using consistent_total[OF c, of x y] by simp
    then show ?thesis using False Cons by (auto simp: set_insert_sorted)
  qed
qed

lemma sorted_array_sort:
  "consistent_comparator f \<Longrightarrow> sorted_wrt (\<lambda>a b. f a b \<le> 0) (array_sort f xs)"
  by (induction xs) (auto simp: sorted_insert_sorted)

lemma filter_insert_sorted:
  assumes c: "consistent_comparator f"
  shows "filter (\<lambda>y. f k y = 0) (insert_sorted f x ys) =
     (if f k x = 0 then x # filter (\<lambda>y. f k y = 0) ys else filter (\<lambda>y. f k y = 0) ys)"
proof (induction ys)
  case Nil
  then show ?case by simp
next
  case (Cons y ys)
  have sym: "\<And>x y. f x y = 0 \<Longrightarrow> f y x = 0" using c unfolding consistent_comparator_def by blast
  have tr0: "\<And>x y z. f x y = 0 \<Longrightarrow> f y z = 0 \<Longrightarrow> f x z = 0" using c unfolding consistent_comparator_def by blast
  show ?case
  proof (cases "f x y \<le> 0")
    case True
    then show ?thesis by simp
  next
    case False
    have "\<not> (f k x = 0 \<and> f k y = 0)"
    proof
      assume h: "f k x = 0 \<and> f k y = 0"
      then have "f x y = 0" using sym tr0 by blast
      then show False using False by simp
    qed
    then show ?thesis using False Cons by auto
  qed
qed

lemma stable_array_sort:
  "consistent_comparator f \<Longrightarrow>
     filter (\<lambda>y. f k y = 0) (array_sort f xs) = filter (\<lambda>y. f k y = 0) xs"
  by (induction xs) (auto simp: filter_insert_sorted)

lemma consistent_on_name:
  "consistent_comparator lc \<Longrightarrow> consistent_comparator (\<lambda>a b. lc (name a) (name b))"
  unfolding consistent_comparator_def by blast

lemma consistent_flip:
  "consistent_comparator f \<Longrightarrow> consistent_comparator (\<lambda>a b. f b a)"
  unfolding consistent_comparator_def by blast

lemma consistent_rating: "consistent_comparator (\<lambda>a b. rating a - rating b)"
  unfolding consistent_comparator_def by auto

lemma consistent_rating_desc: "consistent_comparator (\<lambda>a b. rating b - rating a)"
  unfolding consistent_comparator_def by auto

lemma consistent_codeUnitCompare: "consistent_comparator codeUnitCompare"
  unfolding consistent_comparator_def codeUnitCompare_def by (auto split: if_splits)

lemma mode_comparator_cases:
  "mode_comparator lc ''name-asc'' = (\<lambda>a b. lc (name a) (name b))"
  "mode_comparator lc ''name-desc'' = (\<lambda>a b. lc (name b) (name a))"
  "mode_comparator lc ''rating-asc'' = (\<lambda>a b. rating a - rating b)"
  "mode_comparator lc ''rating-desc'' = (\<lambda>a b. rating b - rating a)"
  by (simp_all add: mode_comparator_def fun_eq_iff)

lemma consistent_mode_comparator:
  assumes "consistent_comparator lc"
    and "sortBy \<in> {''name-asc'', ''name-desc'', ''rating-asc'', ''rating-desc''}"
  shows "consistent_comparator (mode_comparator lc sortBy)"
proof -
  have n: "consistent_comparator (\<lambda>a b. lc (name a) (name b))"
    using assms(1) by (rule consistent_on_name)
  have nd: "consistent_comparator (\<lambda>a b. lc (name b) (name a))"
    using n by (rule consistent_flip)
  from assms(2) consider "sortBy = ''name-asc''" | "sortBy = ''name-desc''"
    | "sortBy = ''rating-asc''" | "sortBy = ''rating-desc''" by blast
  then show ?thesis
    by cases (simp_all only: mode_comparator_cases n nd consistent_rating consistent_rating_desc)
qed

lemma sortItems_result:
  assumes "sortBy \<in> {''name-asc'', ''name-desc'', ''rating-asc'', ''rating-desc''}"
  shows "sortItems lc h items sortBy =
     (h @ [array_sort (mode_comparator lc sortBy) (h ! items)], length h)"
proof -
  from assms consider "sortBy = ''name-asc''" | "sortBy = ''name-desc''"
    | "sortBy = ''rating-asc''" | "sortBy = ''rating-desc''" by blast
  then show ?thesis
  proof cases
    case 1
    show ?thesis unfolding 1 mode_comparator_cases
      by (simp add: sortItems_def spread_def sort_in_place_def)
  next
    case 2
    show ?thesis unfolding 2 mode_comparator_cases
      by (simp add: sortItems_def spread_def sort_in_place_def)
  next
    case 3
    show ?thesis unfolding 3 mode_comparator_cases
      by (simp add: sortItems_def spread_def sort_in_place_def)
  next
    case 4
    show ?thesis unfolding 4 mode_comparator_cases
      by (simp add: sortItems_def spread_def sort_in_place_def)
  qed
qed

lemma adjacent_of_sorted_wrt:
  "sorted_wrt P xs \<Longrightarrow> Suc i < length xs \<Longrightarrow> P (xs ! i) (xs ! Suc i)"
  by (simp add: sorted_wrt_nth_less)

text \<open>
  Claim C2. In each of the four modes \<open>sortItems\<close> allocates a new array and leaves
  every array that existed before the call, the input among them, as it was. The new
  array holds the items of the input, each as often as the input does, ordered by the
  comparator of the mode: under \<open>name-asc\<close> every adjacent pair of names satisfies
  \<open>localeCompare \<le> 0\<close>, under \<open>name-desc\<close> \<open>localeCompare \<ge> 0\<close>, under
  \<open>rating-asc\<close> and \<open>rating-desc\<close> the ratings do not decrease and do not increase.
  Items that compare equal keep their input order: for every item, the items comparing
  equal to it form the same sequence in the result as in the input. \<open>localeCompare\<close> is
  taken to be a consistent comparator, as ECMAScript requires of it.
\<close>

theorem sortItems_sorted_stable_copy:
  fixes h :: "'a BaseItem_scheme heap"
  assumes ref: "items < length h"
    and lc: "consistent_comparator localeCompare"
    and mode: "sortBy \<in> {''name-asc'', ''name-desc'', ''rating-asc'', ''rating-desc''}"
  shows "\<exists>h' sortedItems.
       sortItems localeCompare h items sortBy = (h', sortedItems)
     \<and> sortedItems = length h \<and> sortedItems \<noteq> items \<and> length h' = Suc (length h)
     \<and> (\<forall>r<length h. h' ! r = h ! r)
     \<and> h' ! items = h ! items
     \<and> mset (h' ! sortedItems) = mset (h ! items)
     \<and> sorted_wrt (\<lambda>a b. mode_comparator localeCompare sortBy a b \<le> 0) (h' ! sortedItems)
     \<and> (\<forall>i. Suc i < length (h' ! sortedItems) \<longrightarrow>
           (sortBy = ''name-asc'' \<longrightarrow>
              localeCompare (name (h' ! sortedItems ! i)) (name (h' ! sortedItems ! Suc i)) \<le> 0)
         \<and> (sortBy = ''name-desc'' \<longrightarrow>
              localeCompare (name (h' ! sortedItems ! i)) (name (h' ! sortedItems ! Suc i)) \<ge> 0)
         \<and> (sortBy = ''rating-asc'' \<longrightarrow>
              rating (h' ! sortedItems ! i) \<le> rating (h' ! sortedItems ! Suc i))
         \<and> (sortBy = ''rating-desc'' \<longrightarrow>
              rating (h' ! sortedItems ! i) \<ge> rating (h' ! sortedItems ! Suc i)))
     \<and> (\<forall>k. filter (\<lambda>item. mode_comparator localeCompare sortBy k item = 0) (h' ! sortedItems)
            = filter (\<lambda>item. mode_comparator localeCompare sortBy k item = 0) (h ! items))"
proof -
  define cmp :: "'a BaseItem_scheme \<Rightarrow> 'a BaseItem_scheme \<Rightarrow> real"
    where "cmp = mode_comparator localeCompare sortBy"
  define res where "res = array_sort cmp (h ! items)"
  define h' where "h' = h @ [res]"
  have cc: "consistent_comparator cmp"
    unfolding cmp_def using lc mode by (rule consistent_mode_comparator)
  have eq: "sortItems localeCompare h items sortBy = (h', length h)"
    unfolding h'_def res_def cmp_def using mode by (rule sortItems_result)
  have at: "h' ! length h = res" by (simp add: h'_def)
  have old: "\<forall>r<length h. h' ! r = h ! r" by (simp add: h'_def nth_append)
  have len: "length h' = Suc (length h)" by (simp add: h'_def)
  have ne: "length h \<noteq> items" using ref by simp
  have perm: "mset res = mset (h ! items)" by (simp add: res_def mset_array_sort)
  have srt: "sorted_wrt (\<lambda>a b. cmp a b \<le> 0) res"
    unfolding res_def using cc by (rule sorted_array_sort)
  have stab: "\<forall>k. filter (\<lambda>item. cmp k item = 0) res = filter (\<lambda>item. cmp k item = 0) (h ! items)"
    unfolding res_def using cc by (simp add: stable_array_sort)
  have adj: "cmp (res ! i) (res ! Suc i) \<le> 0" if "Suc i < length res" for i
    using srt that by (rule adjacent_of_sorted_wrt)
  have a1: "localeCompare (name (res ! i)) (name (res ! Suc i)) \<le> 0"
    if "Suc i < length res" "sortBy = ''name-asc''" for i
    using adj[OF that(1)] unfolding cmp_def that(2) mode_comparator_cases .
  have a2: "localeCompare (name (res ! i)) (name (res ! Suc i)) \<ge> 0"
    if "Suc i < length res" "sortBy = ''name-desc''" for i
  proof -
    have le: "localeCompare (name (res ! Suc i)) (name (res ! i)) \<le> 0"
      using adj[OF that(1)] unfolding cmp_def that(2) mode_comparator_cases .
    show ?thesis
    proof (rule ccontr)
      assume "\<not> 0 \<le> localeCompare (name (res ! i)) (name (res ! Suc i))"
      then have "localeCompare (name (res ! i)) (name (res ! Suc i)) < 0" by simp
      with lc have "localeCompare (name (res ! Suc i)) (name (res ! i)) > 0"
        by (rule consistent_flip_sign)
      then show False using le by simp
    qed
  qed
  have a3: "rating (res ! i) \<le> rating (res ! Suc i)"
    if "Suc i < length res" "sortBy = ''rating-asc''" for i
    using adj[OF that(1)] unfolding cmp_def that(2) mode_comparator_cases by simp
  have a4: "rating (res ! i) \<ge> rating (res ! Suc i)"
    if "Suc i < length res" "sortBy = ''rating-desc''" for i
    using adj[OF that(1)] unfolding cmp_def that(2) mode_comparator_cases by simp
  have all: "sortItems localeCompare h items sortBy = (h', length h)
     \<and> length h = length h \<and> length h \<noteq> items \<and> length h' = Suc (length h)
     \<and> (\<forall>r<length h. h' ! r = h ! r)
     \<and> h' ! items = h ! items
     \<and> mset (h' ! length h) = mset (h ! items)
     \<and> sorted_wrt (\<lambda>a b. cmp a b \<le> 0) (h' ! length h)
     \<and> (\<forall>i. Suc i < length (h' ! length h) \<longrightarrow>
           (sortBy = ''name-asc'' \<longrightarrow>
              localeCompare (name (h' ! length h ! i)) (name (h' ! length h ! Suc i)) \<le> 0)
         \<and> (sortBy = ''name-desc'' \<longrightarrow>
              localeCompare (name (h' ! length h ! i)) (name (h' ! length h ! Suc i)) \<ge> 0)
         \<and> (sortBy = ''rating-asc'' \<longrightarrow>
              rating (h' ! length h ! i) \<le> rating (h' ! length h ! Suc i))
         \<and> (sortBy = ''rating-desc'' \<longrightarrow>
              rating (h' ! length h ! i) \<ge> rating (h' ! length h ! Suc i)))
     \<and> (\<forall>k. filter (\<lambda>item. cmp k item = 0) (h' ! length h)
            = filter (\<lambda>item. cmp k item = 0) (h ! items))"
    unfolding at using eq ne len old ref perm srt stab a1 a2 a3 a4 by blast
  show ?thesis
    using all unfolding cmp_def by blast
qed

theorem sortItems_sorted_stable_copy_witness:
  "(0::nat) < length [[item_B, item_A]] \<and> consistent_comparator codeUnitCompare
   \<and> ''name-asc'' \<in> {''name-asc'', ''name-desc'', ''rating-asc'', ''rating-desc''}
   \<and> sortItems codeUnitCompare [[item_B, item_A]] 0 ''name-asc''
        = ([[item_B, item_A], [item_A, item_B]], 1)
   \<and> sortItems codeUnitCompare [[item_B, item_A]] 0 ''rating-asc''
        = ([[item_B, item_A], [item_B, item_A]], 1)"
proof -
  have r: "(0::nat) < length [[item_B, item_A]]" by simp
  have m: "''name-asc'' \<in> {''name-asc'', ''name-desc'', ''rating-asc'', ''rating-desc''}" by simp
  have c: "codeUnitCompare ''B'' ''A'' = 1" "codeUnitCompare ''A'' ''B'' = -1"
    by (simp_all add: codeUnitCompare_def less_char_def)
  have e1: "sortItems codeUnitCompare [[item_B, item_A]] 0 ''name-asc''
        = ([[item_B, item_A], [item_A, item_B]], 1)"
    by (simp add: sortItems_def spread_def sort_in_place_def item_A_def item_B_def c)
  have e2: "sortItems codeUnitCompare [[item_B, item_A]] 0 ''rating-asc''
        = ([[item_B, item_A], [item_B, item_A]], 1)"
    by (simp add: sortItems_def spread_def sort_in_place_def item_A_def item_B_def)
  from sortItems_sorted_stable_copy[OF r consistent_codeUnitCompare m]
  obtain h' sortedItems where "sortItems codeUnitCompare [[item_B, item_A]] 0 ''name-asc'' = (h', sortedItems)"
    "sortedItems = length [[item_B, item_A]]" by blast
  then have "sortItems codeUnitCompare [[item_B, item_A]] 0 ''name-asc''
        = ([[item_B, item_A], [item_A, item_B]], 1)" using e1 by simp
  then show ?thesis using r m e2 consistent_codeUnitCompare by blast
qed

end
